theory Spec2Isabelle
  imports Complex_Main "HOL-Library.Multiset" "HOL-Library.Monad_Syntax"
begin

section \<open>Horizon: the interaction and state engine of app.js\<close>

text \<open>
  A shallow embedding of the state engine of \<^verbatim>\<open>app.js\<close>: the module-level
  variables become one record, every event handler becomes a function from the state
  (and the event's inputs) to the new state. JavaScript numbers are reals. The zoom
  arithmetic (the wheel handler and \<^verbatim>\<open>screenToWorld\<close>) is double arithmetic: every
  operation rounds to the nearest double, and a result that no finite double holds ends
  the computation with \<open>None\<close>. The other handlers' sums and quotients (the offsets of
  a drag, the paste offset, the spawn position) and the comparisons of rectangles are
  those of the reals. Strings are \<^typ>\<open>string\<close>. The DOM is not
  part of the state: \<^verbatim>\<open>render()\<close> recomputes it from the state, and what a handler
  reads back from it (bounding rectangles) is an input of the handler. Calls of
  \<^verbatim>\<open>confirm()\<close> and \<^verbatim>\<open>crypto.randomUUID()\<close> are inputs as well.
\<close>

subsection \<open>Data model\<close>

datatype prim =
  Zone | Host | Webapp | Database | Domain_controller | Service
  | Vuln | Artifact | Note | Credential | Hash | Flag | Secret

record node =
  n_id :: string
  n_type :: prim
  n_x :: real
  n_y :: real
  n_w :: real
  n_h :: real
  n_data :: "(string \<times> string) list"

typedecl edge

record drawing =
  d_id :: string
  d_color :: string
  d_size :: real
  d_points :: "(real \<times> real) list"

record textDrawing =
  t_id :: string
  t_x :: real
  t_y :: real
  t_text :: string
  t_size :: real
  t_color :: string

datatype mode = Normal | Draw | Text

datatype clipboard = Single node | Multi "node list"

record rect =
  r_left :: real
  r_top :: real
  r_right :: real
  r_bottom :: real

text \<open>One element of \<^verbatim>\<open>document.querySelectorAll(".node")\<close> as the selection box maps it:
  its \<^verbatim>\<open>dataset.id\<close>, its bounding rectangle and whether it carries the class zone.\<close>

record dom_node =
  dn_id :: string
  dn_rect :: rect
  dn_isZone :: bool

text \<open>The fields of a pointer or wheel event that the handlers read;
  \<open>pe_onInput\<close> is \<^verbatim>\<open>["INPUT", "TEXTAREA"].includes(e.target.tagName)\<close>.\<close>

record pointer_event =
  pe_clientX :: real
  pe_clientY :: real
  pe_button :: int
  pe_shiftKey :: bool
  pe_deltaY :: real
  pe_onInput :: bool

record key_event =
  ke_key :: string
  ke_altKey :: bool

text \<open>The result of \<^verbatim>\<open>viewport.getBoundingClientRect()\<close>.\<close>

record vrect =
  v_left :: real
  v_top :: real
  v_width :: real
  v_height :: real

record app =
  zoom :: real
  panX :: real
  panY :: real
  shiftDown :: bool
  ctrlDown :: bool
  interactionMode :: mode
  selectedIds :: "string list"
  focusedId :: "string option"
  nodes :: "node list"
  edges :: "edge list"
  drawings :: "drawing list"
  textDrawings :: "textDrawing list"
  clipboard :: "clipboard option"
  drawUndo :: "drawing list"
  drawRedo :: "drawing list"
  nodeUndo :: "node list list"
  nodeRedo :: "node list list"
  selecting :: bool
  selectStart :: "(real \<times> real) option"
  isDirty :: bool
  panning :: bool
  panStart :: "real \<times> real"
  alerts :: "string list"
  consoleWarnings :: "string list"

text \<open>The values of the module-level \<^verbatim>\<open>let\<close> declarations.\<close>

definition initial :: app where
  "initial = \<lparr> zoom = 1, panX = 0, panY = 0, shiftDown = False, ctrlDown = False,
     interactionMode = Normal, selectedIds = [], focusedId = None,
     nodes = [], edges = [], drawings = [], textDrawings = [],
     clipboard = None, drawUndo = [], drawRedo = [], nodeUndo = [], nodeRedo = [],
     selecting = False, selectStart = None, isDirty = False,
     panning = False, panStart = (0, 0), alerts = [], consoleWarnings = [] \<rparr>"

subsection \<open>The selection set and the focus\<close>

text \<open>
  \<^verbatim>\<open>selectedIds\<close> is a JavaScript \<^verbatim>\<open>Set\<close>: it iterates in insertion order and
  never holds an element twice. It is the list of its elements in that order.
\<close>

definition set_has :: "string \<Rightarrow> string list \<Rightarrow> bool" where
  "set_has i s = (i \<in> set s)"

definition set_add :: "string \<Rightarrow> string list \<Rightarrow> string list" where
  "set_add i s = (if i \<in> set s then s else s @ [i])"

definition set_delete :: "string \<Rightarrow> string list \<Rightarrow> string list" where
  "set_delete i s = filter (\<lambda>j. j \<noteq> i) s"

definition set_size :: "string list \<Rightarrow> nat" where
  "set_size s = length s"

text \<open>\<^verbatim>\<open>if (focusedId)\<close>: \<^verbatim>\<open>null\<close> and the empty string are falsy.\<close>

definition truthy :: "string option \<Rightarrow> bool" where
  "truthy f = (case f of None \<Rightarrow> False | Some i \<Rightarrow> i \<noteq> [])"

text \<open>\<^verbatim>\<open>state.nodes.find(n => n.id === id)\<close>.\<close>

definition findNode :: "string \<Rightarrow> node list \<Rightarrow> node option" where
  "findNode i ns = find (\<lambda>n. n_id n = i) ns"

definition scheduleSave :: "app \<Rightarrow> app" where
  "scheduleSave s = s\<lparr>isDirty := True\<rparr>"

subsection \<open>Selection geometry\<close>

definition rectIntersects :: "rect \<Rightarrow> rect \<Rightarrow> bool" where
  "rectIntersects a b =
     (\<not> (r_right a < r_left b \<or> r_left a > r_right b
         \<or> r_bottom a < r_top b \<or> r_top a > r_bottom b))"

definition rectContains :: "rect \<Rightarrow> rect \<Rightarrow> bool" where
  "rectContains outer inner =
     (r_left inner \<ge> r_left outer \<and> r_right inner \<le> r_right outer
      \<and> r_top inner \<ge> r_top outer \<and> r_bottom inner \<le> r_bottom outer)"

text \<open>The predicate of \<^verbatim>\<open>zones.filter(z => ...)\<close> in the selection box's \<^verbatim>\<open>up\<close>.\<close>

definition activeZone :: "rect \<Rightarrow> dom_node \<Rightarrow> bool" where
  "activeZone sel z =
     (let intersects = rectIntersects (dn_rect z) sel;
          selectionInsideZone = rectContains (dn_rect z) sel;
          zoneInsideSelection = rectContains sel (dn_rect z);
          partialEscape = (intersects \<and> \<not> selectionInsideZone \<and> \<not> zoneInsideSelection)
      in partialEscape \<or> zoneInsideSelection)"

definition domNodes_with_id :: "dom_node list \<Rightarrow> dom_node list" where
  "domNodes_with_id els = filter (\<lambda>n. dn_id n \<noteq> []) els"

definition zones_of :: "dom_node list \<Rightarrow> dom_node list" where
  "zones_of els = filter dn_isZone (domNodes_with_id els)"

definition others_of :: "dom_node list \<Rightarrow> dom_node list" where
  "others_of els = filter (\<lambda>n. \<not> dn_isZone n) (domNodes_with_id els)"

definition activeZones :: "rect \<Rightarrow> dom_node list \<Rightarrow> dom_node list" where
  "activeZones sel els = filter (activeZone sel) (zones_of els)"

text \<open>\<^verbatim>\<open>others.forEach(n => { if (rectContains(z.rect, n.rect)) selectedIds.add(n.id) })\<close>.\<close>

definition addContained :: "dom_node \<Rightarrow> dom_node list \<Rightarrow> string list \<Rightarrow> string list" where
  "addContained z others acc =
     fold (\<lambda>n a. if rectContains (dn_rect z) (dn_rect n) then set_add (dn_id n) a else a)
       others acc"

definition addIntersecting :: "rect \<Rightarrow> dom_node list \<Rightarrow> string list \<Rightarrow> string list" where
  "addIntersecting sel others acc =
     fold (\<lambda>n a. if rectIntersects (dn_rect n) sel then set_add (dn_id n) a else a)
       others acc"

text \<open>The selection the \<^verbatim>\<open>up\<close> listener rebuilds from scratch, for the selection
  rectangle \<open>sel\<close> and the rendered node elements \<open>els\<close>.\<close>

definition groupSelect :: "rect \<Rightarrow> dom_node list \<Rightarrow> string list" where
  "groupSelect sel els =
     (let others = others_of els;
          sel1 = fold (\<lambda>z a. addContained z others (set_add (dn_id z) a))
                   (activeZones sel els) []
      in addIntersecting sel others sel1)"

subsection \<open>Keyboard\<close>

text \<open>A handler either returns early with the state it has reached, or falls through
  to its next statement.\<close>

datatype 'a flow = Return 'a | Continue 'a

fun andThen :: "'a flow \<Rightarrow> ('a \<Rightarrow> 'a flow) \<Rightarrow> 'a flow" where
  "andThen (Return s) f = Return s"
| "andThen (Continue s) f = f s"

fun finish :: "'a flow \<Rightarrow> 'a" where
  "finish (Return s) = s"
| "finish (Continue s) = s"

text \<open>\<^verbatim>\<open>String.prototype.toLowerCase\<close> on the ASCII letters, which is all a
  comparison with \<^verbatim>\<open>"z"\<close>, \<^verbatim>\<open>"y"\<close>, \<^verbatim>\<open>"c"\<close> or \<^verbatim>\<open>"v"\<close> depends on.\<close>

definition lowerChar :: "char \<Rightarrow> char" where
  "lowerChar c =
     (case map_of (zip ''ABCDEFGHIJKLMNOPQRSTUVWXYZ'' ''abcdefghijklmnopqrstuvwxyz'') c of
        None \<Rightarrow> c | Some d \<Rightarrow> d)"

definition toLowerCase :: "string \<Rightarrow> string" where
  "toLowerCase k = map lowerChar k"

text \<open>\<^verbatim>\<open>JSON.parse(JSON.stringify(n))\<close>: a structurally equal node that shares
  nothing with \<open>n\<close>. Values of the model share nothing to begin with; the copy's
  independence in the JavaScript heap is the subject of the store model further down.\<close>

definition deepCopy :: "node \<Rightarrow> node" where
  "deepCopy n = n"

definition keyFlags :: "key_event \<Rightarrow> app \<Rightarrow> app" where
  "keyFlags e s =
     (let s1 = (if ke_key e = ''Shift'' then s\<lparr>shiftDown := True\<rparr> else s)
      in if ke_key e = ''Control'' then s1\<lparr>ctrlDown := True\<rparr> else s1)"

text \<open>The Delete key; \<open>confirmed\<close> is the answer of \<^verbatim>\<open>confirm(...)\<close>.\<close>

definition idsToDelete :: "app \<Rightarrow> string list option" where
  "idsToDelete s =
     (if set_size (selectedIds s) > 0 then Some (selectedIds s)
      else if truthy (focusedId s) then Some [the (focusedId s)]
      else None)"

definition keyDelete :: "key_event \<Rightarrow> bool \<Rightarrow> app \<Rightarrow> app flow" where
  "keyDelete e confirmed s =
     (if ke_key e = ''Delete'' then
        (case idsToDelete s of
           None \<Rightarrow> Return s
         | Some ids \<Rightarrow>
             if \<not> confirmed then Return s
             else
               let deletedNodes = filter (\<lambda>n. n_id n \<in> set ids) (nodes s)
               in Continue (scheduleSave
                    (s\<lparr>nodeUndo := nodeUndo s @ [deletedNodes],
                       nodeRedo := [],
                       nodes := filter (\<lambda>n. n_id n \<notin> set ids) (nodes s),
                       selectedIds := [],
                       focusedId := None\<rparr>)))
      else Continue s)"

text \<open>\<^verbatim>\<open>Array.prototype.pop\<close>: the last element and the rest, nothing on the empty array.\<close>

definition pop :: "'a list \<Rightarrow> ('a \<times> 'a list) option" where
  "pop xs = (if xs = [] then None else Some (last xs, butlast xs))"

definition keyNodeUndo :: "key_event \<Rightarrow> app \<Rightarrow> app flow" where
  "keyNodeUndo e s =
     (if interactionMode s = Normal \<and> ctrlDown s \<and> toLowerCase (ke_key e) = ''z'' then
        (case pop (nodeUndo s) of
           None \<Rightarrow> Return s
         | Some (lst, rest) \<Rightarrow>
             Return (scheduleSave
               (s\<lparr>nodeUndo := rest,
                  nodes := nodes s @ lst,
                  nodeRedo := nodeRedo s @ [lst]\<rparr>)))
      else Continue s)"

definition keyNodeRedo :: "key_event \<Rightarrow> app \<Rightarrow> app flow" where
  "keyNodeRedo e s =
     (if interactionMode s = Normal \<and> ctrlDown s \<and> toLowerCase (ke_key e) = ''y'' then
        (case pop (nodeRedo s) of
           None \<Rightarrow> Return s
         | Some (lst, rest) \<Rightarrow>
             let ids = map n_id lst
             in Return (scheduleSave
                  (s\<lparr>nodeRedo := rest,
                     nodes := filter (\<lambda>n. n_id n \<notin> set ids) (nodes s),
                     nodeUndo := nodeUndo s @ [lst]\<rparr>)))
      else Continue s)"

definition keyEscape :: "key_event \<Rightarrow> app \<Rightarrow> app flow" where
  "keyEscape e s =
     (if ke_key e = ''Escape'' then Return (s\<lparr>focusedId := None, selectedIds := []\<rparr>)
      else Continue s)"

definition keyDrawUndo :: "key_event \<Rightarrow> app \<Rightarrow> app flow" where
  "keyDrawUndo e s =
     (if interactionMode s = Draw \<and> ctrlDown s \<and> toLowerCase (ke_key e) = ''z'' then
        (case pop (drawings s) of
           None \<Rightarrow> Return (scheduleSave s)
         | Some (lst, rest) \<Rightarrow>
             Return (scheduleSave (s\<lparr>drawings := rest, drawRedo := drawRedo s @ [lst]\<rparr>)))
      else Continue s)"

definition keyDrawRedo :: "key_event \<Rightarrow> app \<Rightarrow> app flow" where
  "keyDrawRedo e s =
     (if interactionMode s = Draw \<and> ctrlDown s \<and> toLowerCase (ke_key e) = ''y'' then
        (case pop (drawRedo s) of
           None \<Rightarrow> Return (scheduleSave s)
         | Some (redo, rest) \<Rightarrow>
             Return (scheduleSave (s\<lparr>drawRedo := rest, drawings := drawings s @ [redo]\<rparr>)))
      else Continue s)"

text \<open>Copy: the selection when it is not empty, else the focused node when it exists.\<close>

definition copyNodes :: "app \<Rightarrow> app" where
  "copyNodes s =
     (if set_size (selectedIds s) \<ge> 1 then
        (let nodesToCopy = filter (\<lambda>n. set_has (n_id n) (selectedIds s)) (nodes s)
         in s\<lparr>clipboard := Some (Multi (map deepCopy nodesToCopy))\<rparr>)
      else if truthy (focusedId s) then
        (case findNode (the (focusedId s)) (nodes s) of
           None \<Rightarrow> s
         | Some n \<Rightarrow> s\<lparr>clipboard := Some (Single (deepCopy n))\<rparr>)
      else s)"

text \<open>The clone of one clipboard node; \<open>u\<close> is what \<^verbatim>\<open>crypto.randomUUID()\<close> returns.\<close>

definition cloneNode :: "string \<Rightarrow> node \<Rightarrow> node" where
  "cloneNode u n =
     (let clone = deepCopy n;
          clone1 = clone\<lparr>n_id := u\<rparr>;
          clone2 = clone1\<lparr>n_x := n_x clone1 + 40\<rparr>
      in clone2\<lparr>n_y := n_y clone2 + 40\<rparr>)"

text \<open>\<open>uuid k\<close> is the result of the handler's call number \<open>k\<close> of
  \<^verbatim>\<open>crypto.randomUUID()\<close>; \<^verbatim>\<open>map\<close> calls it once per clipboard node, in order.\<close>

definition cloneAll :: "(nat \<Rightarrow> string) \<Rightarrow> node list \<Rightarrow> node list" where
  "cloneAll uuid ns = map (\<lambda>(k, n). cloneNode (uuid k) n) (zip [0..<length ns] ns)"

definition pasteSingle :: "(nat \<Rightarrow> string) \<Rightarrow> clipboard \<Rightarrow> app \<Rightarrow> app" where
  "pasteSingle uuid c s =
     (case c of
        Single n \<Rightarrow>
          (let clone = cloneNode (uuid 0) n
           in s\<lparr>nodes := nodes s @ [clone],
                focusedId := Some (n_id clone),
                selectedIds := set_add (n_id clone) (selectedIds s)\<rparr>)
      | Multi ns \<Rightarrow> s)"

definition pasteMulti :: "(nat \<Rightarrow> string) \<Rightarrow> clipboard \<Rightarrow> app \<Rightarrow> app" where
  "pasteMulti uuid c s =
     (case c of
        Single n \<Rightarrow> s
      | Multi ns \<Rightarrow>
          (let clones = cloneAll uuid ns;
               s1 = s\<lparr>nodes := nodes s @ clones\<rparr>
           in if length clones > 0 then
                s1\<lparr>focusedId := Some (n_id (hd clones)),
                   selectedIds := fold (\<lambda>c a. set_add (n_id c) a) clones (selectedIds s1)\<rparr>
              else s1))"

definition pasteNodes :: "(nat \<Rightarrow> string) \<Rightarrow> clipboard \<Rightarrow> app \<Rightarrow> app" where
  "pasteNodes uuid c s =
     scheduleSave (pasteMulti uuid c (pasteSingle uuid c (s\<lparr>selectedIds := []\<rparr>)))"

definition keyCopyPaste :: "key_event \<Rightarrow> (nat \<Rightarrow> string) \<Rightarrow> app \<Rightarrow> app flow" where
  "keyCopyPaste e uuid s =
     (if interactionMode s = Normal then
        (let s1 = (if ctrlDown s \<and> ke_altKey e \<and> toLowerCase (ke_key e) = ''c''
                   then copyNodes s else s)
         in if ctrlDown s1 \<and> ke_altKey e \<and> toLowerCase (ke_key e) = ''v''
               \<and> clipboard s1 \<noteq> None
            then Continue (pasteNodes uuid (the (clipboard s1)) s1)
            else Continue s1)
      else Continue s)"

text \<open>The \<^verbatim>\<open>keydown\<close> listener of the window.\<close>

definition keydown :: "key_event \<Rightarrow> bool \<Rightarrow> (nat \<Rightarrow> string) \<Rightarrow> app \<Rightarrow> app" where
  "keydown e confirmed uuid s =
     finish
       (andThen (andThen (andThen (andThen (andThen (andThen (andThen
          (Continue (keyFlags e s))
          (keyDelete e confirmed))
          (keyNodeUndo e))
          (keyNodeRedo e))
          (keyEscape e))
          (keyDrawUndo e))
          (keyDrawRedo e))
          (keyCopyPaste e uuid))"

definition keyup :: "key_event \<Rightarrow> app \<Rightarrow> app" where
  "keyup e s =
     (let s1 = (if ke_key e = ''Shift'' then s\<lparr>shiftDown := False\<rparr> else s)
      in if ke_key e = ''Control'' then s1\<lparr>ctrlDown := False\<rparr> else s1)"

subsection \<open>Zoom and pan\<close>

text \<open>
  A double is a multiple of the spacing of its binade: 2 to the power \<open>e - 52\<close> for a
  magnitude from 2 to the \<open>e\<close> up to 2 to the \<open>e + 1\<close>, and the spacing of the lowest
  normal binade (\<open>e = -1022\<close>) for everything below it. An operation returns the double
  nearest its exact result, the one with the even multiple on a tie.
\<close>

definition roundHalfEven :: "real \<Rightarrow> int" where
  "roundHalfEven y =
     (let f = \<lfloor>y\<rfloor>; d = y - of_int f
      in if d < 1 / 2 then f else if d > 1 / 2 then f + 1 else if even f then f else f + 1)"

text \<open>The exponent of a magnitude of at least 1, by halving; of one below 1, by doubling,
  at most 1022 times.\<close>

primrec halvings :: "nat \<Rightarrow> real \<Rightarrow> int \<Rightarrow> int" where
  "halvings 0 a e = e"
| "halvings (Suc n) a e = (if a \<ge> 2 then halvings n (a / 2) (e + 1) else e)"

primrec doublings :: "nat \<Rightarrow> real \<Rightarrow> int \<Rightarrow> int" where
  "doublings 0 a e = e"
| "doublings (Suc n) a e = (if a < 1 then doublings n (2 * a) (e - 1) else e)"

definition binade :: "real \<Rightarrow> int" where
  "binade x = (if \<bar>x\<bar> \<ge> 1 then halvings 1024 \<bar>x\<bar> 0 else doublings 1022 \<bar>x\<bar> 0)"

definition fl :: "real \<Rightarrow> real" where
  "fl x = (let q = 2 powi (binade x - 52) in of_int (roundHalfEven (x / q)) * q)"

text \<open>The double an operation with exact result \<open>x\<close> returns; \<open>None\<close> where it returns
  an infinity (the rounded magnitude reaches 2 to the 1024).\<close>

definition toDouble :: "real \<Rightarrow> real option" where
  "toDouble x = (let y = fl x in if \<bar>y\<bar> < 2 ^ 1024 then Some y else None)"

definition dadd :: "real \<Rightarrow> real \<Rightarrow> real option" where
  "dadd a b = toDouble (a + b)"

definition dsub :: "real \<Rightarrow> real \<Rightarrow> real option" where
  "dsub a b = toDouble (a - b)"

definition dmul :: "real \<Rightarrow> real \<Rightarrow> real option" where
  "dmul a b = toDouble (a * b)"

text \<open>A division by zero returns an infinity or NaN.\<close>

definition ddiv :: "real \<Rightarrow> real \<Rightarrow> real option" where
  "ddiv a b = (if b = 0 then None else toDouble (a / b))"

text \<open>The literal \<^verbatim>\<open>0.1\<close>.\<close>

definition tenth :: real where
  "tenth = fl (1 / 10)"

text \<open>The relative and the absolute rounding error of one operation.\<close>

definition unitRoundoff :: real where
  "unitRoundoff = 1 / 2 ^ 53"

definition tiny :: real where
  "tiny = 2 powi (- 1075)"

text \<open>The \<^verbatim>\<open>wheel\<close> listener of the viewport. \<open>None\<close>: the step would store an infinity
  or NaN in \<^verbatim>\<open>zoom\<close>, \<^verbatim>\<open>panX\<close> or \<^verbatim>\<open>panY\<close> (a zoom of 0, or magnitudes no
  double holds).\<close>

definition wheel :: "pointer_event \<Rightarrow> vrect \<Rightarrow> app \<Rightarrow> app option" where
  "wheel e r s =
     (if \<not> pe_shiftKey e then Some s
      else do {
        let delta = (if pe_deltaY e > 0 then - tenth else tenth);
        z \<leftarrow> dadd (zoom s) delta;
        let newZoom = min 2 (max tenth z);
        mx \<leftarrow> dsub (pe_clientX e) (v_left r);
        my \<leftarrow> dsub (pe_clientY e) (v_top r);
        dx \<leftarrow> dsub mx (panX s);
        wx \<leftarrow> ddiv dx (zoom s);
        dy \<leftarrow> dsub my (panY s);
        wy \<leftarrow> ddiv dy (zoom s);
        sx \<leftarrow> dmul wx newZoom;
        px \<leftarrow> dsub mx sx;
        sy \<leftarrow> dmul wy newZoom;
        py \<leftarrow> dsub my sy;
        Some (scheduleSave (s\<lparr>zoom := newZoom, panX := px, panY := py\<rparr>))
      })"

definition screenToWorld :: "pointer_event \<Rightarrow> vrect \<Rightarrow> app \<Rightarrow> (real \<times> real) option" where
  "screenToWorld e r s =
     do {
       mx \<leftarrow> dsub (pe_clientX e) (v_left r);
       dx \<leftarrow> dsub mx (panX s);
       x \<leftarrow> ddiv dx (zoom s);
       my \<leftarrow> dsub (pe_clientY e) (v_top r);
       dy \<leftarrow> dsub my (panY s);
       y \<leftarrow> ddiv dy (zoom s);
       Some (x, y)
     }"

text \<open>The \<^verbatim>\<open>mousedown\<close> listener of the viewport: Shift starts a pan, Ctrl starts a
  selection box (and attaches its \<^verbatim>\<open>move\<close> and \<^verbatim>\<open>up\<close> listeners).\<close>

definition viewportMouseDown :: "pointer_event \<Rightarrow> app \<Rightarrow> app" where
  "viewportMouseDown e s =
     (if pe_button e \<noteq> 0 then s
      else if interactionMode s \<noteq> Normal then s
      else if shiftDown s then
        s\<lparr>panning := True,
          panStart := (pe_clientX e - panX s, pe_clientY e - panY s)\<rparr>
      else if ctrlDown s then
        s\<lparr>selecting := True, selectStart := Some (pe_clientX e, pe_clientY e)\<rparr>
      else s)"

text \<open>The \<^verbatim>\<open>up\<close> listener of the selection box; \<open>els\<close> is what
  \<^verbatim>\<open>document.querySelectorAll(".node")\<close> yields, with the bounding rectangles. The
  listener exists only after \<^verbatim>\<open>selectStart\<close> has been assigned.\<close>

definition selectUp :: "pointer_event \<Rightarrow> dom_node list \<Rightarrow> app \<Rightarrow> app" where
  "selectUp ev els s =
     (if \<not> selecting s then s
      else
        case selectStart s of
          None \<Rightarrow> s\<lparr>selecting := False\<rparr>
        | Some (x1, y1) \<Rightarrow>
            let x2 = pe_clientX ev;
                y2 = pe_clientY ev;
                sel = \<lparr>r_left = min x1 x2, r_top = min y1 y2,
                       r_right = max x1 x2, r_bottom = max y1 y2\<rparr>
            in s\<lparr>selecting := False,
                 selectedIds := groupSelect sel els,
                 focusedId := None\<rparr>)"

definition windowMouseMove :: "pointer_event \<Rightarrow> app \<Rightarrow> app" where
  "windowMouseMove e s =
     (if \<not> panning s then s
      else scheduleSave
             (s\<lparr>panX := pe_clientX e - fst (panStart s),
                panY := pe_clientY e - snd (panStart s)\<rparr>))"

text \<open>The \<^verbatim>\<open>mouseup\<close> listener of the window; its reset of \<^verbatim>\<open>activeDraw\<close> belongs
  to the drawing layer, which the state here does not hold.\<close>

definition windowMouseUp :: "app \<Rightarrow> app" where
  "windowMouseUp s = scheduleSave (s\<lparr>panning := False\<rparr>)"

subsection \<open>Node elements: focus, toggle, move\<close>

text \<open>The listeners that \<^verbatim>\<open>render()\<close> attaches to the element of the node with id \<open>b\<close>.\<close>

definition nodeDblClick :: "string \<Rightarrow> pointer_event \<Rightarrow> app \<Rightarrow> app" where
  "nodeDblClick b e s =
     (if shiftDown s then s
      else if pe_onInput e then s
      else if truthy (focusedId s) \<and> focusedId s \<noteq> Some b then s
      else s\<lparr>focusedId := Some b, selectedIds := set_add b []\<rparr>)"

text \<open>What the \<^verbatim>\<open>move\<close> closure of a drag captures: the pointer's start and
  \<^verbatim>\<open>starts\<close>, the start position of every selected node that was found.\<close>

record drag =
  dr_sx :: real
  dr_sy :: real
  dr_starts :: "(string \<times> (real \<times> real)) list"

definition dragStarts :: "app \<Rightarrow> (string \<times> (real \<times> real)) list" where
  "dragStarts s =
     fold (\<lambda>i starts.
             case findNode i (nodes s) of
               None \<Rightarrow> starts
             | Some n \<Rightarrow> starts @ [(i, (n_x n, n_y n))])
       (selectedIds s) []"

text \<open>The \<^verbatim>\<open>mousedown\<close> listener of a node element. The second component is the
  drag whose \<^verbatim>\<open>move\<close> and \<^verbatim>\<open>up\<close> listeners it attaches to the window, if it gets
  that far.\<close>

definition nodeMouseDown :: "string \<Rightarrow> pointer_event \<Rightarrow> app \<Rightarrow> app \<times> drag option" where
  "nodeMouseDown b e s =
     (let s1 = (if set_size (selectedIds s) > 1 \<and> set_has b (selectedIds s)
                then s\<lparr>focusedId := None\<rparr> else s)
      in if interactionMode s1 \<noteq> Normal \<or> pe_button e \<noteq> 0 then (s1, None)
         else if shiftDown s1 then (s1, None)
         else if pe_onInput e then (s1, None)
         else if truthy (focusedId s1) \<and> focusedId s1 \<noteq> Some b \<and> \<not> ctrlDown s1
           then (s1, None)
         else if ctrlDown s1 then
           (if set_has b (selectedIds s1)
            then (s1\<lparr>selectedIds := set_delete b (selectedIds s1)\<rparr>, None)
            else (s1\<lparr>selectedIds := set_add b (selectedIds s1)\<rparr>, None))
         else
           let s2 = (if \<not> set_has b (selectedIds s1)
                     then s1\<lparr>selectedIds := set_add b [],
                             focusedId := (if \<not> truthy (focusedId s1) then Some b
                                           else focusedId s1)\<rparr>
                     else s1)
           in (s2, Some \<lparr>dr_sx = pe_clientX e, dr_sy = pe_clientY e,
                         dr_starts = dragStarts s2\<rparr>))"

text \<open>\<^verbatim>\<open>n.x = s.x + dx; n.y = s.y + dy\<close> on the first node with id \<open>i\<close>.\<close>

fun moveFirst :: "string \<Rightarrow> real \<Rightarrow> real \<Rightarrow> node list \<Rightarrow> node list" where
  "moveFirst i nx ny [] = []"
| "moveFirst i nx ny (n # ns) =
     (if n_id n = i then n\<lparr>n_x := nx, n_y := ny\<rparr> # ns
      else n # moveFirst i nx ny ns)"

datatype error = TypeError

text \<open>The body of \<^verbatim>\<open>selectedIds.forEach\<close> in the \<^verbatim>\<open>move\<close> listener. A selected id
  whose node exists but has no entry in \<^verbatim>\<open>starts\<close> makes \<^verbatim>\<open>s.x\<close> throw: the
  iteration stops there, and the nodes moved before it stay moved.\<close>

fun moveEach ::
  "(string \<times> (real \<times> real)) list \<Rightarrow> real \<Rightarrow> real \<Rightarrow> string list \<Rightarrow> node list
     \<Rightarrow> error option \<times> node list" where
  "moveEach starts dx dy [] ns = (None, ns)"
| "moveEach starts dx dy (i # is) ns =
     (case findNode i ns of
        None \<Rightarrow> moveEach starts dx dy is ns
      | Some n \<Rightarrow>
          (case map_of starts i of
             None \<Rightarrow> (Some TypeError, ns)
           | Some (px, py) \<Rightarrow> moveEach starts dx dy is (moveFirst i (px + dx) (py + dy) ns)))"

definition dragMove :: "drag \<Rightarrow> pointer_event \<Rightarrow> app \<Rightarrow> error option \<times> app" where
  "dragMove d ev s =
     (let dx = (pe_clientX ev - dr_sx d) / zoom s;
          dy = (pe_clientY ev - dr_sy d) / zoom s;
          (err, ns) = moveEach (dr_starts d) dx dy (selectedIds s) (nodes s)
      in (err, s\<lparr>nodes := ns\<rparr>))"

definition dragUp :: "app \<Rightarrow> app" where
  "dragUp s = scheduleSave s"

text \<open>A whole drag gesture on the element of node \<open>b\<close>: the press, then the pointer
  movements \<open>moves\<close>, then the release. With no drag attached the movements and the
  release reach no listener of this gesture.\<close>

definition dragGesture :: "string \<Rightarrow> pointer_event \<Rightarrow> pointer_event list \<Rightarrow> app \<Rightarrow> app" where
  "dragGesture b e moves s =
     (case nodeMouseDown b e s of
        (s1, None) \<Rightarrow> s1
      | (s1, Some d) \<Rightarrow> dragUp (fold (\<lambda>ev t. snd (dragMove d ev t)) moves s1))"

subsection \<open>Spawn\<close>

text \<open>\<^verbatim>\<open>Object.keys(primitives[type].fields)\<close>, in the order of the table.\<close>

fun fieldKeys :: "prim \<Rightarrow> string list" where
  "fieldKeys Zone = [''title'', ''subnet'', ''notes'']"
| "fieldKeys Host = [''hostname'', ''os'', ''network'', ''protections'', ''shares'',
     ''ports'', ''tech'', ''notes'']"
| "fieldKeys Vuln = [''type'', ''severity'', ''cwe'', ''cve'', ''cvss'', ''evidence'',
     ''affected'', ''description'', ''impact'', ''exploit'', ''remediation'']"
| "fieldKeys Credential = [''privilege'', ''username'', ''password'', ''target'',
     ''source'', ''notes'']"
| "fieldKeys Hash = [''type'', ''algorithm'', ''value'', ''password'', ''target'',
     ''source'', ''notes'']"
| "fieldKeys Flag = [''value'', ''source'', ''time'']"
| "fieldKeys Secret = [''type'', ''target'', ''source'', ''value'']"
| "fieldKeys Webapp = [''url'', ''hostname'', ''type'', ''ip'', ''port'', ''tech'',
     ''auth'', ''notes'']"
| "fieldKeys Database = [''type'', ''hostname'', ''ip'', ''port'', ''creds'', ''notes'']"
| "fieldKeys Domain_controller = [''hostname'', ''os'', ''forest'', ''domain'', ''ip'',
     ''services'', ''nearby_infra'', ''notes'']"
| "fieldKeys Service = [''type'', ''host'', ''account'', ''notes'']"
| "fieldKeys Note = [''text'']"
| "fieldKeys Artifact = [''type'', ''location'', ''purpose'', ''cleanup'', ''notes'',
     ''evidence'', ''created_by'']"

text \<open>\<^verbatim>\<open>data[k] = v\<close> on an object: an existing key keeps its place, a new one goes last.\<close>

fun setKey :: "string \<Rightarrow> string \<Rightarrow> (string \<times> string) list \<Rightarrow> (string \<times> string) list" where
  "setKey k v [] = [(k, v)]"
| "setKey k v ((k', v') # kvs) =
     (if k' = k then (k, v) # kvs else (k', v') # setKey k v kvs)"

fun spawnSize :: "prim \<Rightarrow> real \<times> real" where
  "spawnSize Host = (420, 680)"
| "spawnSize Zone = (700, 450)"
| "spawnSize Domain_controller = (420, 530)"
| "spawnSize Webapp = (350, 580)"
| "spawnSize Database = (350, 440)"
| "spawnSize Service = (250, 290)"
| "spawnSize Vuln = (400, 830)"
| "spawnSize Note = (200, 140)"
| "spawnSize Artifact = (420, 530)"
| "spawnSize Credential = (300, 410)"
| "spawnSize Hash = (300, 470)"
| "spawnSize Secret = (300, 310)"
| "spawnSize Flag = (210, 210)"

definition spawnData :: "prim \<Rightarrow> (string \<times> string) list" where
  "spawnData ty =
     (let data = fold (\<lambda>k d. setKey k [] d) (fieldKeys ty) []
      in if ty = Zone then setKey ''color'' ''#2196f3'' (setKey ''title'' ''ZONE'' data)
         else data)"

definition spawn :: "prim \<Rightarrow> vrect \<Rightarrow> (nat \<Rightarrow> string) \<Rightarrow> app \<Rightarrow> app" where
  "spawn ty r uuid s =
     (let cx = (v_width r / 2 - panX s) / zoom s;
          cy = (v_height r / 2 - panY s) / zoom s;
          i = uuid 0;
          (w, h) = spawnSize ty;
          n = \<lparr>n_id = i, n_type = ty, n_x = cx - w / 2, n_y = cy - h / 2,
               n_w = w, n_h = h, n_data = spawnData ty\<rparr>
      in scheduleSave
           (s\<lparr>nodes := nodes s @ [n],
              focusedId := Some i,
              selectedIds := set_add i []\<rparr>))"

subsection \<open>Load, import, clear\<close>

text \<open>
  What \<^verbatim>\<open>JSON.parse\<close> makes of the stored blob or of the imported file: it throws,
  or yields \<^verbatim>\<open>null\<close> (whose property reads throw), or a value whose properties can be
  read. Of such a value the model keeps, for every property the handlers read, whether
  it is falsy or missing (\<open>None\<close>) or holds a well-typed collection; for the viewport
  numbers, whether \<^verbatim>\<open>typeof\<close> yields \<^verbatim>\<open>"number"\<close>.
\<close>

record meta =
  m_zoom :: "real option"
  m_panX :: "real option"
  m_panY :: "real option"

record doc =
  doc_nodes :: "node list option"
  doc_edges :: "edge list option"
  doc_drawings :: "drawing list option"
  doc_textDrawings :: "textDrawing list option"
  doc_meta :: "meta option"

datatype parsed = ParseFail | ParsedNull | ParsedDoc doc

text \<open>\<^verbatim>\<open>v || []\<close>.\<close>

definition orEmpty :: "'a list option \<Rightarrow> 'a list" where
  "orEmpty v = (case v of None \<Rightarrow> [] | Some xs \<Rightarrow> xs)"

definition assignDoc :: "doc \<Rightarrow> app \<Rightarrow> app" where
  "assignDoc d s =
     s\<lparr>nodes := orEmpty (doc_nodes d),
       edges := orEmpty (doc_edges d),
       drawings := orEmpty (doc_drawings d),
       textDrawings := orEmpty (doc_textDrawings d)\<rparr>"

definition assignMeta :: "meta \<Rightarrow> app \<Rightarrow> app" where
  "assignMeta m s =
     (let s1 = (case m_zoom m of None \<Rightarrow> s | Some z \<Rightarrow> s\<lparr>zoom := z\<rparr>);
          s2 = (case m_panX m of None \<Rightarrow> s1 | Some px \<Rightarrow> s1\<lparr>panX := px\<rparr>)
      in case m_panY m of None \<Rightarrow> s2 | Some py \<Rightarrow> s2\<lparr>panY := py\<rparr>)"

text \<open>\<open>raw\<close> is \<open>None\<close> when \<^verbatim>\<open>localStorage.getItem\<close> yields \<^verbatim>\<open>null\<close> or the empty
  string, else what \<^verbatim>\<open>JSON.parse\<close> makes of the blob.\<close>

definition loadFromStorage :: "parsed option \<Rightarrow> app \<Rightarrow> app" where
  "loadFromStorage raw s =
     (case raw of
        None \<Rightarrow> s
      | Some ParseFail \<Rightarrow>
          s\<lparr>consoleWarnings := consoleWarnings s @ [''Failed to load autosave'']\<rparr>
      | Some ParsedNull \<Rightarrow>
          s\<lparr>consoleWarnings := consoleWarnings s @ [''Failed to load autosave'']\<rparr>
      | Some (ParsedDoc d) \<Rightarrow>
          (let s1 = assignDoc d s
           in case doc_meta d of None \<Rightarrow> s1 | Some m \<Rightarrow> assignMeta m s1))"

definition importState :: "parsed \<Rightarrow> app \<Rightarrow> app" where
  "importState p s =
     (case p of
        ParseFail \<Rightarrow> s\<lparr>alerts := alerts s @ [''Invalid state file'']\<rparr>
      | ParsedNull \<Rightarrow> s\<lparr>alerts := alerts s @ [''Invalid state file'']\<rparr>
      | ParsedDoc d \<Rightarrow>
          scheduleSave ((assignDoc d s)\<lparr>focusedId := None, selectedIds := []\<rparr>))"

definition clearAll :: "bool \<Rightarrow> app \<Rightarrow> app" where
  "clearAll confirmed s =
     (if \<not> confirmed then s
      else s\<lparr>nodes := [], edges := [], drawings := [], textDrawings := [],
             selectedIds := [], focusedId := None\<rparr>)"

subsection \<open>Mode toggles\<close>

definition toggleDraw :: "app \<Rightarrow> app" where
  "toggleDraw s = s\<lparr>interactionMode := (if interactionMode s = Draw then Normal else Draw)\<rparr>"

definition toggleText :: "app \<Rightarrow> app" where
  "toggleText s = s\<lparr>interactionMode := (if interactionMode s = Text then Normal else Text)\<rparr>"

subsection \<open>Events\<close>

text \<open>
  The events of the handlers above, the wheel apart: its step can leave the finite
  numbers, so it stays a function of its own (it assigns \<^verbatim>\<open>zoom\<close>, \<^verbatim>\<open>panX\<close> and
  \<^verbatim>\<open>panY\<close>, schedules a save and does nothing else). The handlers left out are those of the drawing layer
  (stroke capture, text placement), of the resize handles and of the field inputs, and
  the toolbar's colour and size pickers; none of them assigns \<^verbatim>\<open>focusedId\<close>,
  \<^verbatim>\<open>selectedIds\<close>, \<^verbatim>\<open>zoom\<close> or the node list.
\<close>

datatype event =
    KeyDown key_event bool "nat \<Rightarrow> string"
  | KeyUp key_event
  | ViewportMouseDown pointer_event
  | SelectUp pointer_event "dom_node list"
  | WindowMouseMove pointer_event
  | WindowMouseUp
  | NodeDblClick string pointer_event
  | NodeMouseDown string pointer_event
  | DragMove drag pointer_event
  | DragUp
  | Spawn prim vrect "nat \<Rightarrow> string"
  | Import parsed
  | ClearAll bool
  | ToggleDraw
  | ToggleText

fun step :: "event \<Rightarrow> app \<Rightarrow> app" where
  "step (KeyDown e confirmed uuid) s = keydown e confirmed uuid s"
| "step (KeyUp e) s = keyup e s"
| "step (ViewportMouseDown e) s = viewportMouseDown e s"
| "step (SelectUp e els) s = selectUp e els s"
| "step (WindowMouseMove e) s = windowMouseMove e s"
| "step WindowMouseUp s = windowMouseUp s"
| "step (NodeDblClick b e) s = nodeDblClick b e s"
| "step (NodeMouseDown b e) s = fst (nodeMouseDown b e s)"
| "step (DragMove d e) s = snd (dragMove d e s)"
| "step DragUp s = dragUp s"
| "step (Spawn ty r uuid) s = spawn ty r uuid s"
| "step (Import p) s = importState p s"
| "step (ClearAll confirmed) s = clearAll confirmed s"
| "step ToggleDraw s = toggleDraw s"
| "step ToggleText s = toggleText s"

text \<open>A run of the page: \<^verbatim>\<open>window.onload\<close> loads the stored state once, then events
  arrive one at a time.\<close>

definition run :: "parsed option \<Rightarrow> event list \<Rightarrow> app" where
  "run raw evs = fold step evs (loadFromStorage raw initial)"

section \<open>The clipboard in the JavaScript heap\<close>

text \<open>
  Whether a paste can change the clipboard, or an edit of a pasted node the node it was
  copied from, depends on which objects the arrays share. This second model keeps the
  node objects in a store: \<^verbatim>\<open>state.nodes\<close> and the clipboard hold references, a node
  object holds its scalar fields and a reference to its \<^verbatim>\<open>data\<close> object, and
  \<^verbatim>\<open>JSON.parse(JSON.stringify(n))\<close> allocates a new node object and a new data object.
  A read through a reference the store does not hold is \<open>None\<close>; no JavaScript state has one.
\<close>

type_synonym addr = nat

record node_obj =
  o_id :: string
  o_type :: prim
  o_x :: real
  o_y :: real
  o_w :: real
  o_h :: real
  o_data :: addr

datatype obj = NodeObj node_obj | DataObj "(string \<times> string) list"

record store =
  heap :: "addr \<Rightarrow> obj option"
  next_addr :: addr

definition alloc :: "obj \<Rightarrow> store \<Rightarrow> addr \<times> store" where
  "alloc v st =
     (next_addr st, st\<lparr>heap := (heap st)(next_addr st \<mapsto> v), next_addr := Suc (next_addr st)\<rparr>)"

definition readNode :: "store \<Rightarrow> addr \<Rightarrow> node_obj option" where
  "readNode st a = (case heap st a of Some (NodeObj n) \<Rightarrow> Some n | _ \<Rightarrow> None)"

definition readData :: "store \<Rightarrow> addr \<Rightarrow> (string \<times> string) list option" where
  "readData st a = (case heap st a of Some (DataObj d) \<Rightarrow> Some d | _ \<Rightarrow> None)"

text \<open>The value \<^verbatim>\<open>JSON.stringify\<close> reads off a node object: its fields and the
  contents of its data object.\<close>

definition nodeValue :: "store \<Rightarrow> addr \<Rightarrow> node option" where
  "nodeValue st a =
     (case readNode st a of
        None \<Rightarrow> None
      | Some n \<Rightarrow>
          (case readData st (o_data n) of
             None \<Rightarrow> None
           | Some d \<Rightarrow>
               Some \<lparr>n_id = o_id n, n_type = o_type n, n_x = o_x n, n_y = o_y n,
                     n_w = o_w n, n_h = o_h n, n_data = d\<rparr>))"

text \<open>\<^verbatim>\<open>JSON.parse(JSON.stringify(n))\<close> on the object at \<open>a\<close>: a new data object and a
  new node object that refers to it.\<close>

definition deepCopyRef :: "addr \<Rightarrow> store \<Rightarrow> (addr \<times> store) option" where
  "deepCopyRef a st =
     (case nodeValue st a of
        None \<Rightarrow> None
      | Some v \<Rightarrow>
          let (ad, st1) = alloc (DataObj (n_data v)) st
          in Some (alloc (NodeObj \<lparr>o_id = n_id v, o_type = n_type v, o_x = n_x v,
                                   o_y = n_y v, o_w = n_w v, o_h = n_h v, o_data = ad\<rparr>) st1))"

fun deepCopyRefs :: "addr list \<Rightarrow> store \<Rightarrow> (addr list \<times> store) option" where
  "deepCopyRefs [] st = Some ([], st)"
| "deepCopyRefs (a # as) st =
     (case deepCopyRef a st of
        None \<Rightarrow> None
      | Some (c, st1) \<Rightarrow>
          (case deepCopyRefs as st1 of
             None \<Rightarrow> None
           | Some (cs, st2) \<Rightarrow> Some (c # cs, st2)))"

text \<open>An assignment to fields of the node object at \<open>a\<close>.\<close>

definition updNode :: "addr \<Rightarrow> (node_obj \<Rightarrow> node_obj) \<Rightarrow> store \<Rightarrow> store" where
  "updNode a f st =
     (case readNode st a of
        None \<Rightarrow> st
      | Some n \<Rightarrow> st\<lparr>heap := (heap st)(a \<mapsto> NodeObj (f n))\<rparr>)"

datatype ref_clipboard = RSingle addr | RMulti "addr list"

record hstate =
  h_store :: store
  h_nodes :: "addr list"
  h_selectedIds :: "string list"
  h_focusedId :: "string option"
  h_clipboard :: "ref_clipboard option"

definition hasId :: "store \<Rightarrow> (string \<Rightarrow> bool) \<Rightarrow> addr \<Rightarrow> bool" where
  "hasId st p a = (case readNode st a of None \<Rightarrow> False | Some n \<Rightarrow> p (o_id n))"

text \<open>The copy branch of the \<^verbatim>\<open>keydown\<close> listener, on references.\<close>

definition copyRefs :: "hstate \<Rightarrow> hstate option" where
  "copyRefs hs =
     (if set_size (h_selectedIds hs) \<ge> 1 then
        (let nodesToCopy =
               filter (hasId (h_store hs) (\<lambda>i. set_has i (h_selectedIds hs))) (h_nodes hs)
         in case deepCopyRefs nodesToCopy (h_store hs) of
              None \<Rightarrow> None
            | Some (cs, st) \<Rightarrow> Some (hs\<lparr>h_store := st, h_clipboard := Some (RMulti cs)\<rparr>))
      else if truthy (h_focusedId hs) then
        (case find (hasId (h_store hs) (\<lambda>i. Some i = h_focusedId hs)) (h_nodes hs) of
           None \<Rightarrow> Some hs
         | Some a \<Rightarrow>
             (case deepCopyRef a (h_store hs) of
                None \<Rightarrow> None
              | Some (c, st) \<Rightarrow> Some (hs\<lparr>h_store := st, h_clipboard := Some (RSingle c)\<rparr>)))
      else Some hs)"

text \<open>The clone of the clipboard object at \<open>a\<close>: the copy, then
  \<^verbatim>\<open>clone.id = crypto.randomUUID(); clone.x += 40; clone.y += 40\<close> on the copy.\<close>

definition cloneRef :: "string \<Rightarrow> addr \<Rightarrow> store \<Rightarrow> (addr \<times> store) option" where
  "cloneRef u a st =
     (case deepCopyRef a st of
        None \<Rightarrow> None
      | Some (c, st1) \<Rightarrow>
          let st2 = updNode c (\<lambda>n. n\<lparr>o_id := u\<rparr>) st1;
              st3 = updNode c (\<lambda>n. n\<lparr>o_x := o_x n + 40\<rparr>) st2
          in Some (c, updNode c (\<lambda>n. n\<lparr>o_y := o_y n + 40\<rparr>) st3))"

fun cloneRefs :: "(nat \<Rightarrow> string) \<Rightarrow> nat \<Rightarrow> addr list \<Rightarrow> store \<Rightarrow> (addr list \<times> store) option" where
  "cloneRefs uuid k [] st = Some ([], st)"
| "cloneRefs uuid k (a # as) st =
     (case cloneRef (uuid k) a st of
        None \<Rightarrow> None
      | Some (c, st1) \<Rightarrow>
          (case cloneRefs uuid (Suc k) as st1 of
             None \<Rightarrow> None
           | Some (cs, st2) \<Rightarrow> Some (c # cs, st2)))"

text \<open>The paste branch of the \<^verbatim>\<open>keydown\<close> listener, on references; it is entered
  only when \<^verbatim>\<open>clipboard\<close> is not \<^verbatim>\<open>null\<close>.\<close>

definition pasteRefs :: "(nat \<Rightarrow> string) \<Rightarrow> hstate \<Rightarrow> hstate option" where
  "pasteRefs uuid hs =
     (case h_clipboard hs of
        None \<Rightarrow> Some hs
      | Some (RSingle a) \<Rightarrow>
          (case cloneRef (uuid 0) a (h_store hs) of
             None \<Rightarrow> None
           | Some (c, st) \<Rightarrow>
               Some (hs\<lparr>h_store := st,
                        h_nodes := h_nodes hs @ [c],
                        h_focusedId := Some (uuid 0),
                        h_selectedIds := set_add (uuid 0) []\<rparr>))
      | Some (RMulti as) \<Rightarrow>
          (case cloneRefs uuid 0 as (h_store hs) of
             None \<Rightarrow> None
           | Some (cs, st) \<Rightarrow>
               let hs1 = hs\<lparr>h_store := st, h_nodes := h_nodes hs @ cs, h_selectedIds := []\<rparr>
               in if length cs > 0 then
                    Some (hs1\<lparr>h_focusedId := Some (uuid 0),
                              h_selectedIds :=
                                fold (\<lambda>k a. set_add (uuid k) a) [0..<length cs] []\<rparr>)
                  else Some hs1))"

text \<open>The writes of the handlers that edit a node: a drag sets \<^verbatim>\<open>x\<close> and \<^verbatim>\<open>y\<close>,
  a resize \<^verbatim>\<open>w\<close>, \<^verbatim>\<open>h\<close>, \<^verbatim>\<open>x\<close> and \<^verbatim>\<open>y\<close>, a field input
  \<^verbatim>\<open>node.data[k]\<close>.\<close>

datatype mutation = SetX real | SetY real | SetW real | SetH real | SetData string string

fun mutate :: "addr \<Rightarrow> mutation \<Rightarrow> store \<Rightarrow> store" where
  "mutate a (SetX v) st = updNode a (\<lambda>n. n\<lparr>o_x := v\<rparr>) st"
| "mutate a (SetY v) st = updNode a (\<lambda>n. n\<lparr>o_y := v\<rparr>) st"
| "mutate a (SetW v) st = updNode a (\<lambda>n. n\<lparr>o_w := v\<rparr>) st"
| "mutate a (SetH v) st = updNode a (\<lambda>n. n\<lparr>o_h := v\<rparr>) st"
| "mutate a (SetData k v) st =
     (case readNode st a of
        None \<Rightarrow> st
      | Some n \<Rightarrow>
          (case readData st (o_data n) of
             None \<Rightarrow> st
           | Some d \<Rightarrow> st\<lparr>heap := (heap st)(o_data n \<mapsto> DataObj (setKey k v d))\<rparr>))"

definition clipRefs :: "ref_clipboard option \<Rightarrow> addr list" where
  "clipRefs c = (case c of None \<Rightarrow> [] | Some (RSingle a) \<Rightarrow> [a] | Some (RMulti as) \<Rightarrow> as)"

text \<open>The clipboard as a value: what its references hold in the store.\<close>

definition clipValue :: "hstate \<Rightarrow> node option list" where
  "clipValue hs = map (nodeValue (h_store hs)) (clipRefs (h_clipboard hs))"

text \<open>A reference is valid when it holds a node object whose data reference holds a data
  object, both allocated.\<close>

definition validRef :: "store \<Rightarrow> addr \<Rightarrow> bool" where
  "validRef st a =
     (case readNode st a of
        None \<Rightarrow> False
      | Some n \<Rightarrow> readData st (o_data n) \<noteq> None \<and> a < next_addr st \<and> o_data n < next_addr st)"

definition dataRef :: "store \<Rightarrow> addr \<Rightarrow> addr option" where
  "dataRef st a = map_option o_data (readNode st a)"

text \<open>The references the page holds: those of the node list, then the clipboard's.\<close>

definition liveRefs :: "hstate \<Rightarrow> addr list" where
  "liveRefs hs = h_nodes hs @ clipRefs (h_clipboard hs)"

definition noSharing :: "store \<Rightarrow> addr list \<Rightarrow> bool" where
  "noSharing st refs =
     (list_all (validRef st) refs \<and> distinct refs \<and> distinct (map (dataRef st) refs))"

text \<open>The shape every state of the page has: the node list and the clipboard hold valid
  references, no object is referred to twice, and no two node objects share a data
  object. \<^verbatim>\<open>spawn\<close> and the deep copies only ever add objects of their own.\<close>

definition separated :: "hstate \<Rightarrow> bool" where
  "separated hs = noSharing (h_store hs) (liveRefs hs)"

text \<open>The objects behind \<open>refs\<close> read the same in \<open>st'\<close> as in \<open>st\<close>.\<close>

definition sameOn :: "store \<Rightarrow> store \<Rightarrow> addr list \<Rightarrow> bool" where
  "sameOn st st' refs =
     list_all (\<lambda>a. nodeValue st' a = nodeValue st a \<and> validRef st' a
                  \<and> dataRef st' a = dataRef st a) refs"

text \<open>One paste per generator in \<open>us\<close>, one after the other.\<close>

fun pasteTimes :: "(nat \<Rightarrow> string) list \<Rightarrow> hstate \<Rightarrow> hstate option" where
  "pasteTimes [] hs = Some hs"
| "pasteTimes (u # us) hs =
     (case pasteRefs u hs of None \<Rightarrow> None | Some hs1 \<Rightarrow> pasteTimes us hs1)"

text \<open>A handler's write to the node object at \<open>b\<close>.\<close>

definition mutateNode :: "addr \<Rightarrow> mutation \<Rightarrow> hstate \<Rightarrow> hstate" where
  "mutateNode b m hs = hs\<lparr>h_store := mutate b m (h_store hs)\<rparr>"

section \<open>Example inputs\<close>

text \<open>The rectangles of the specification's group-selection examples.\<close>

definition zoneZ :: dom_node where
  "zoneZ = \<lparr>dn_id = ''Z'',
     dn_rect = \<lparr>r_left = 0, r_top = 0, r_right = 100, r_bottom = 100\<rparr>, dn_isZone = True\<rparr>"

definition nodeN :: dom_node where
  "nodeN = \<lparr>dn_id = ''N'',
     dn_rect = \<lparr>r_left = 95, r_top = 95, r_right = 105, r_bottom = 105\<rparr>, dn_isZone = False\<rparr>"

definition nodeInner :: dom_node where
  "nodeInner = \<lparr>dn_id = ''N'',
     dn_rect = \<lparr>r_left = 20, r_top = 20, r_right = 30, r_bottom = 30\<rparr>, dn_isZone = False\<rparr>"

definition selEscape :: rect where
  "selEscape = \<lparr>r_left = 90, r_top = 90, r_right = 150, r_bottom = 150\<rparr>"

definition selInside :: rect where
  "selInside = \<lparr>r_left = 10, r_top = 10, r_right = 50, r_bottom = 50\<rparr>"

definition selOnZone :: rect where
  "selOnZone = \<lparr>r_left = 0, r_top = 0, r_right = 100, r_bottom = 100\<rparr>"

text \<open>Key and pointer events and a viewport rectangle.\<close>

definition pressKey :: "string \<Rightarrow> key_event" where
  "pressKey k = \<lparr>ke_key = k, ke_altKey = False\<rparr>"

definition pressAltKey :: "string \<Rightarrow> key_event" where
  "pressAltKey k = \<lparr>ke_key = k, ke_altKey = True\<rparr>"

definition leftButtonAt :: "real \<Rightarrow> real \<Rightarrow> pointer_event" where
  "leftButtonAt px py = \<lparr>pe_clientX = px, pe_clientY = py, pe_button = 0,
     pe_shiftKey = False, pe_deltaY = 0, pe_onInput = False\<rparr>"

definition wheelDownAt :: "real \<Rightarrow> real \<Rightarrow> pointer_event" where
  "wheelDownAt px py = \<lparr>pe_clientX = px, pe_clientY = py, pe_button = 0,
     pe_shiftKey = True, pe_deltaY = 100, pe_onInput = False\<rparr>"

definition viewportAt :: vrect where
  "viewportAt = \<lparr>v_left = 8, v_top = 60, v_width = 1200, v_height = 800\<rparr>"

text \<open>A stored blob whose \<^verbatim>\<open>meta.zoom\<close> is the number 5, and one with no
  \<^verbatim>\<open>nodes\<close> and no \<^verbatim>\<open>meta\<close>.\<close>

definition zoomedDoc :: doc where
  "zoomedDoc = \<lparr>doc_nodes = None, doc_edges = None, doc_drawings = None,
     doc_textDrawings = None,
     doc_meta = Some \<lparr>m_zoom = Some 5, m_panX = None, m_panY = None\<rparr>\<rparr>"

definition sparseDoc :: doc where
  "sparseDoc = \<lparr>doc_nodes = None, doc_edges = Some [], doc_drawings = None,
     doc_textDrawings = Some [], doc_meta = None\<rparr>"

text \<open>Three nodes and states that hold them.\<close>

definition nodeA :: node where
  "nodeA = \<lparr>n_id = ''A'', n_type = Host, n_x = 100, n_y = 100, n_w = 420, n_h = 680,
     n_data = [(''hostname'', ''dc01''), (''os'', ''linux'')]\<rparr>"

definition nodeB :: node where
  "nodeB = \<lparr>n_id = ''B'', n_type = Note, n_x = 600, n_y = 100, n_w = 200, n_h = 140,
     n_data = [(''text'', ''todo'')]\<rparr>"

definition nodeC :: node where
  "nodeC = \<lparr>n_id = ''C'', n_type = Flag, n_x = 0, n_y = 500, n_w = 210, n_h = 210,
     n_data = [(''value'', ''''), (''source'', ''''), (''time'', '''')]\<rparr>"

definition nodeD :: node where
  "nodeD = \<lparr>n_id = ''D'', n_type = Zone, n_x = - 50, n_y = - 50, n_w = 700, n_h = 450,
     n_data = [(''title'', ''DMZ''), (''subnet'', ''''), (''notes'', ''''),
               (''color'', ''#2196f3'')]\<rparr>"

definition fourNodes :: app where
  "fourNodes = initial\<lparr>nodes := [nodeA, nodeB, nodeC, nodeD]\<rparr>"

definition threeSelected :: app where
  "threeSelected = fourNodes\<lparr>selectedIds := [''A'', ''C'', ''D'']\<rparr>"

definition storedDoc :: doc where
  "storedDoc = \<lparr>doc_nodes = Some [nodeA, nodeB], doc_edges = None, doc_drawings = None,
     doc_textDrawings = None, doc_meta = None\<rparr>"

text \<open>A stand-in for \<^verbatim>\<open>crypto.randomUUID\<close>: call \<open>k\<close> yields \<open>k + 1\<close> letters u.\<close>

definition uuidU :: "nat \<Rightarrow> string" where
  "uuidU k = replicate (Suc k) CHR ''u''"

text \<open>The nodes a clipboard snapshot holds, in order.\<close>

definition clipNodes :: "clipboard \<Rightarrow> node list" where
  "clipNodes c = (case c of Single n \<Rightarrow> [n] | Multi ns \<Rightarrow> ns)"


text \<open>The four nodes after a double-click on A, and then after Ctrl+Alt+C.\<close>

definition focusedOnA :: app where
  "focusedOnA = nodeDblClick ''A'' (leftButtonAt 110 110) fourNodes"


text \<open>A run of the page from a stored document that holds the nodes A and B: press A
  (which selects and focuses it), delete it, undo the deletion, press A again and redo
  the deletion.\<close>

definition redoTrace :: "event list" where
  "redoTrace =
     [NodeMouseDown ''A'' (leftButtonAt 110 110), DragUp,
      KeyDown (pressKey ''Delete'') True uuidU,
      KeyDown (pressKey ''Control'') True uuidU,
      KeyDown (pressKey ''z'') True uuidU,
      KeyUp (pressKey ''Control''),
      NodeMouseDown ''A'' (leftButtonAt 110 110), DragUp,
      KeyDown (pressKey ''Control'') True uuidU,
      KeyDown (pressKey ''y'') True uuidU]"


text \<open>The elements of A and B as rendered at zoom 1 and pan 0 in the viewport above, and
  a second run from the same document: with Ctrl held, a selection box is dragged over
  both nodes, the selection is copied and pasted; then Ctrl is released. The two clones
  are selected and the first is focused.\<close>

definition renderedAB :: "dom_node list" where
  "renderedAB =
     [\<lparr>dn_id = ''A'',
       dn_rect = \<lparr>r_left = 108, r_top = 160, r_right = 528, r_bottom = 840\<rparr>,
       dn_isZone = False\<rparr>,
      \<lparr>dn_id = ''B'',
       dn_rect = \<lparr>r_left = 608, r_top = 160, r_right = 808, r_bottom = 300\<rparr>,
       dn_isZone = False\<rparr>]"

definition pairPasted :: app where
  "pairPasted =
     run (Some (ParsedDoc storedDoc))
       [KeyDown (pressKey ''Control'') True uuidU,
        ViewportMouseDown (leftButtonAt 50 100),
        WindowMouseUp,
        SelectUp (leftButtonAt 900 900) renderedAB,
        KeyDown (pressAltKey ''Alt'') True uuidU,
        KeyDown (pressAltKey ''c'') True uuidU,
        KeyDown (pressAltKey ''v'') True uuidU,
        KeyUp (pressKey ''Alt''),
        KeyUp (pressKey ''Control'')]"


text \<open>The page as loaded with nothing stored, after one wheel step down at (108, 81).\<close>

definition steppedOut :: app where
  "steppedOut = initial\<lparr>zoom := 8106479329266893 / 9007199254740992, panX := 10,
     panY := 591097451092377 / 281474976710656, isDirty := True\<rparr>"

text \<open>A store that holds node A of above (its data object at 0, the node object at 1),
  selected and focused, and the state that Ctrl+Alt+C makes of it: the copy's data object
  at 2, the copy at 3.\<close>

definition objA :: "addr \<Rightarrow> node_obj" where
  "objA d = \<lparr>o_id = ''A'', o_type = Host, o_x = 100, o_y = 100, o_w = 420, o_h = 680,
     o_data = d\<rparr>"

definition heapA :: hstate where
  "heapA = \<lparr>h_store = \<lparr>heap = [0 \<mapsto> DataObj (n_data nodeA), 1 \<mapsto> NodeObj (objA 0)],
                          next_addr = 2\<rparr>,
     h_nodes = [1], h_selectedIds = [''A''], h_focusedId = Some ''A'', h_clipboard = None\<rparr>"

definition heapCopied :: hstate where
  "heapCopied = \<lparr>h_store = \<lparr>heap = [0 \<mapsto> DataObj (n_data nodeA), 1 \<mapsto> NodeObj (objA 0),
                                       2 \<mapsto> DataObj (n_data nodeA), 3 \<mapsto> NodeObj (objA 2)],
                               next_addr = 4\<rparr>,
     h_nodes = [1], h_selectedIds = [''A''], h_focusedId = Some ''A'',
     h_clipboard = Some (RMulti [3])\<rparr>"


section \<open>Properties\<close>

subsection \<open>Group selection\<close>

lemma fold_set_add_cond:
  "set (fold (\<lambda>n a. if P n then set_add (f n) a else a) xs acc)
     = set acc \<union> f ` {n \<in> set xs. P n}"
  by (induction xs arbitrary: acc) (auto simp: set_add_def)

lemma set_addContained:
  "set (addContained z others acc)
     = set acc \<union> dn_id ` {n \<in> set others. rectContains (dn_rect z) (dn_rect n)}"
  unfolding addContained_def by (rule fold_set_add_cond)

lemma set_addIntersecting:
  "set (addIntersecting sel others acc)
     = set acc \<union> dn_id ` {n \<in> set others. rectIntersects (dn_rect n) sel}"
  unfolding addIntersecting_def by (rule fold_set_add_cond)

lemma set_fold_zones:
  "set (fold (\<lambda>z a. addContained z others (set_add (dn_id z) a)) zs acc)
     = set acc \<union> dn_id ` set zs
       \<union> dn_id ` {n \<in> set others. \<exists>z \<in> set zs. rectContains (dn_rect z) (dn_rect n)}"
  by (induction zs arbitrary: acc) (auto simp: set_addContained set_add_def)

lemma set_groupSelect:
  "set (groupSelect sel els)
     = dn_id ` set (activeZones sel els)
       \<union> dn_id ` {n \<in> set (others_of els).
                    \<exists>z \<in> set (activeZones sel els). rectContains (dn_rect z) (dn_rect n)}
       \<union> dn_id ` {n \<in> set (others_of els). rectIntersects (dn_rect n) sel}"
  by (simp add: groupSelect_def Let_def set_addIntersecting set_fold_zones)

lemma activeZones_iff:
  "z \<in> set (activeZones sel els) \<longleftrightarrow>
     z \<in> set (zones_of els)
     \<and> ((rectIntersects (dn_rect z) sel \<and> \<not> rectContains (dn_rect z) sel
          \<and> \<not> rectContains sel (dn_rect z))
        \<or> rectContains sel (dn_rect z))"
  by (auto simp: activeZones_def activeZone_def Let_def)

lemma distinct_ids_eq:
  assumes "distinct (map dn_id xs)" and "a \<in> set xs" and "b \<in> set xs" and "dn_id a = dn_id b"
  shows "a = b"
  using assms by (meson distinct_map inj_onD)

lemma enclosing_zone_not_selected:
  assumes d: "distinct (map dn_id (domNodes_with_id els))"
    and z: "z \<in> set (zones_of els)"
    and inside: "rectContains (dn_rect z) sel"
    and proper: "\<not> rectContains sel (dn_rect z)"
  shows "dn_id z \<notin> set (groupSelect sel els)"
proof
  assume sel: "dn_id z \<in> set (groupSelect sel els)"
  have zin: "z \<in> set (domNodes_with_id els)" and zz: "dn_isZone z"
    using z by (auto simp: zones_of_def)
  have inactive: "z \<notin> set (activeZones sel els)"
    using inside proper by (simp add: activeZones_iff)
  from sel consider
      (zone) z' where "z' \<in> set (activeZones sel els)" "dn_id z' = dn_id z"
    | (other) n where "n \<in> set (others_of els)" "dn_id n = dn_id z"
    unfolding set_groupSelect by auto
  then show False
  proof cases
    case zone
    then have "z' \<in> set (domNodes_with_id els)"
      by (auto simp: activeZones_def zones_of_def)
    with d zin zone(2) have "z' = z" by (metis distinct_ids_eq)
    with zone(1) inactive show False by simp
  next
    case other
    then have nin: "n \<in> set (domNodes_with_id els)" and nz: "\<not> dn_isZone n"
      by (auto simp: others_of_def)
    with d zin other(2) have "n = z" by (metis distinct_ids_eq)
    with nz zz show False by simp
  qed
qed

lemmas example_defs =
  zoneZ_def nodeN_def nodeInner_def selEscape_def selInside_def selOnZone_def

lemmas groupSelect_defs =
  groupSelect_def others_of_def zones_of_def activeZones_def domNodes_with_id_def
  activeZone_def rectIntersects_def rectContains_def addContained_def addIntersecting_def
  set_add_def Let_def

lemma escape_example: "groupSelect selEscape [zoneZ, nodeN] = [''Z'', ''N'']"
  by (simp add: example_defs groupSelect_defs)

lemma escape_example_node_outside_zone:
  "\<not> rectContains (dn_rect zoneZ) (dn_rect nodeN) \<and> rectIntersects (dn_rect nodeN) selEscape"
  by (simp add: example_defs rectContains_def rectIntersects_def)

text \<open>
  C1 (as amended). On drag-release the selection is rebuilt from scratch. A zone is
  active iff it intersects the selection rectangle and neither rectangle contains the
  other, or the selection rectangle contains the zone. The ids selected are exactly
  those of the active zones, of the non-zone nodes whose rectangle lies within the
  rectangle of some active zone, and of the non-zone nodes whose rectangle intersects
  the selection rectangle. A zone that contains the selection rectangle without being
  contained in it is not active, and where the rendered elements have distinct ids its
  id is not selected. For Z = (0,0,100,100), S = (90,90,150,150) and N = (95,95,105,105)
  the selection is Z, N; there N is selected because it intersects S (it reaches past
  Z's right and bottom edges, so Z does not contain it).
\<close>

theorem group_selection_rule:
  "set (groupSelect sel els)
     = dn_id ` set (activeZones sel els)
       \<union> dn_id ` {n \<in> set (others_of els).
                    \<exists>z \<in> set (activeZones sel els). rectContains (dn_rect z) (dn_rect n)}
       \<union> dn_id ` {n \<in> set (others_of els). rectIntersects (dn_rect n) sel}
   \<and> (z \<in> set (activeZones sel els) \<longleftrightarrow>
        z \<in> set (zones_of els)
        \<and> ((rectIntersects (dn_rect z) sel \<and> \<not> rectContains (dn_rect z) sel
             \<and> \<not> rectContains sel (dn_rect z))
           \<or> rectContains sel (dn_rect z)))
   \<and> (rectContains (dn_rect z) sel \<and> \<not> rectContains sel (dn_rect z)
        \<longrightarrow> z \<notin> set (activeZones sel els))
   \<and> (distinct (map dn_id (domNodes_with_id els)) \<and> z \<in> set (zones_of els)
        \<and> rectContains (dn_rect z) sel \<and> \<not> rectContains sel (dn_rect z)
        \<longrightarrow> dn_id z \<notin> set (groupSelect sel els))
   \<and> set (groupSelect selEscape [zoneZ, nodeN]) = {dn_id zoneZ, dn_id nodeN}
   \<and> \<not> rectContains (dn_rect zoneZ) (dn_rect nodeN)
   \<and> rectIntersects (dn_rect nodeN) selEscape"
proof -
  have ex: "set (groupSelect selEscape [zoneZ, nodeN]) = {dn_id zoneZ, dn_id nodeN}"
    by (simp add: escape_example) (simp add: example_defs)
  show ?thesis
    using set_groupSelect [of sel els] activeZones_iff [of z sel els]
      enclosing_zone_not_selected [of els z sel] ex escape_example_node_outside_zone
    by blast
qed

theorem group_selection_rule_witness:
  "distinct (map dn_id (domNodes_with_id [zoneZ, nodeInner]))
   \<and> zoneZ \<in> set (zones_of [zoneZ, nodeInner])
   \<and> rectContains (dn_rect zoneZ) selInside
   \<and> \<not> rectContains selInside (dn_rect zoneZ)
   \<and> zoneZ \<notin> set (activeZones selInside [zoneZ, nodeInner])
   \<and> dn_id zoneZ \<notin> set (groupSelect selInside [zoneZ, nodeInner])
   \<and> set (groupSelect selInside [zoneZ, nodeInner]) = {dn_id nodeInner}"
proof -
  have h: "distinct (map dn_id (domNodes_with_id [zoneZ, nodeInner]))
     \<and> zoneZ \<in> set (zones_of [zoneZ, nodeInner])
     \<and> rectContains (dn_rect zoneZ) selInside
     \<and> \<not> rectContains selInside (dn_rect zoneZ)"
    by (simp add: example_defs domNodes_with_id_def zones_of_def rectContains_def)
  have v: "set (groupSelect selInside [zoneZ, nodeInner]) = {dn_id nodeInner}"
    by (simp add: example_defs groupSelect_defs)
  show ?thesis
    using h v group_selection_rule [of selInside "[zoneZ, nodeInner]" zoneZ] by blast
qed

text \<open>
  C1, as stated, fails where the selection rectangle coincides with a zone's rectangle:
  the selection then lies fully inside the zone (containment is inclusive), and the zone
  is selected all the same, because the selection also contains the zone.
\<close>

theorem group_selection_counterexample:
  "rectContains (dn_rect zoneZ) selOnZone
   \<and> dn_id zoneZ \<in> set (groupSelect selOnZone [zoneZ])"
  by (simp add: example_defs groupSelect_defs)

subsection \<open>Zoom\<close>

text \<open>Evaluation of the exponent search on numerals.\<close>

lemma halvings_numeral:
  "halvings (numeral k) a e = (if a \<ge> 2 then halvings (pred_numeral k) (a / 2) (e + 1) else e)"
  by (simp add: numeral_eq_Suc)

lemma doublings_numeral:
  "doublings (numeral k) a e = (if a < 1 then doublings (pred_numeral k) (2 * a) (e - 1) else e)"
  by (simp add: numeral_eq_Suc)

lemmas double_defs = toDouble_def dadd_def dsub_def dmul_def ddiv_def fl_def binade_def
  roundHalfEven_def halvings_numeral doublings_numeral power_int_minus Let_def

lemma tenth_value: "tenth = 3602879701896397 / 36028797018963968"
  by (simp add: tenth_def double_defs)

lemma roundHalfEven_err: "\<bar>of_int (roundHalfEven y) - y\<bar> \<le> 1 / 2"
  unfolding roundHalfEven_def Let_def by (auto; linarith)

lemma halvings_low: "1 \<le> a \<Longrightarrow> 2 powi (halvings n a e) \<le> a * 2 powi e"
proof (induction n arbitrary: a e)
  case 0
  have "1 * 2 powi e \<le> a * 2 powi e"
    using 0 by (intro mult_right_mono) simp_all
  then show ?case by simp
next
  case (Suc n)
  show ?case
  proof (cases "a \<ge> 2")
    case True
    then have "2 powi (halvings n (a / 2) (e + 1)) \<le> (a / 2) * 2 powi (e + 1)"
      by (intro Suc.IH) simp
    also have "\<dots> = a * 2 powi e" by (simp add: power_int_add)
    finally show ?thesis using True by simp
  next
    case False
    have "1 * 2 powi e \<le> a * 2 powi e"
      using Suc.prems by (intro mult_right_mono) simp_all
    then show ?thesis using False by simp
  qed
qed

lemma doublings_low:
  "0 \<le> a \<Longrightarrow> doublings n a e = e - int n \<or> 2 powi (doublings n a e) \<le> a * 2 powi e"
proof (induction n arbitrary: a e)
  case 0
  then show ?case by simp
next
  case (Suc n)
  show ?case
  proof (cases "a < 1")
    case True
    have "doublings n (2 * a) (e - 1) = e - 1 - int n
        \<or> 2 powi (doublings n (2 * a) (e - 1)) \<le> (2 * a) * 2 powi (e - 1)"
      by (intro Suc.IH) (use Suc.prems in simp)
    moreover have "(2 * a) * 2 powi (e - 1) = a * 2 powi e" by (simp add: power_int_diff)
    ultimately show ?thesis using True by auto
  next
    case False
    then have "1 * 2 powi e \<le> a * 2 powi e"
      by (intro mult_right_mono) simp_all
    then show ?thesis using False by simp
  qed
qed

lemma binade_low: "binade x = - 1022 \<or> 2 powi (binade x) \<le> \<bar>x\<bar>"
proof (cases "\<bar>x\<bar> \<ge> 1")
  case True
  then show ?thesis using halvings_low [of "\<bar>x\<bar>" 1024 0] by (simp add: binade_def)
next
  case False
  then show ?thesis using doublings_low [of "\<bar>x\<bar>" 1022 0] by (auto simp: binade_def)
qed

lemma fl_err: "\<bar>fl x - x\<bar> \<le> unitRoundoff * \<bar>x\<bar> + tiny"
proof -
  define q :: real where "q = 2 powi (binade x - 52)"
  have q: "0 < q" by (simp add: q_def)
  have "fl x - x = q * (of_int (roundHalfEven (x / q)) - x / q)"
    using q by (simp add: fl_def q_def [symmetric] Let_def field_simps)
  then have "\<bar>fl x - x\<bar> = q * \<bar>of_int (roundHalfEven (x / q)) - x / q\<bar>"
    using q by (simp add: abs_mult)
  also have "\<dots> \<le> q * (1 / 2)"
    using q roundHalfEven_err [of "x / q"] by (intro mult_left_mono) simp_all
  finally have h: "\<bar>fl x - x\<bar> \<le> q / 2" by simp
  have t: "0 \<le> tiny" "0 \<le> unitRoundoff * \<bar>x\<bar>"
    by (simp_all add: tiny_def unitRoundoff_def)
  from binade_low [of x] show ?thesis
  proof
    assume "binade x = - 1022"
    then have "q / 2 = tiny" by (simp add: q_def tiny_def power_int_minus)
    with h t show ?thesis by linarith
  next
    assume b: "2 powi (binade x) \<le> \<bar>x\<bar>"
    have "q / 2 = unitRoundoff * 2 powi (binade x)"
      by (simp add: q_def unitRoundoff_def power_int_diff)
    also have "\<dots> \<le> unitRoundoff * \<bar>x\<bar>"
      using b by (intro mult_left_mono) (simp_all add: unitRoundoff_def)
    finally show ?thesis using h t by linarith
  qed
qed

lemma wheel_example_ops:
  "dadd 1 (- (3602879701896397 / 36028797018963968)) = Some (8106479329266893 / 9007199254740992)"
  "dsub 108 8 = Some 100"
  "dsub 81 60 = Some 21"
  "dsub 100 0 = Some 100"
  "ddiv 100 1 = Some 100"
  "dsub 21 0 = Some 21"
  "ddiv 21 1 = Some 21"
  "dmul 100 (8106479329266893 / 9007199254740992) = Some 90"
  "dsub 100 90 = Some 10"
  "dmul 21 (8106479329266893 / 9007199254740992) = Some (5319877059831399 / 281474976710656)"
  "dsub 21 (5319877059831399 / 281474976710656) = Some (591097451092377 / 281474976710656)"
  "dsub 100 10 = Some 90"
  "ddiv 90 (8106479329266893 / 9007199254740992) = Some 100"
  "dsub 21 (591097451092377 / 281474976710656) = Some (5319877059831399 / 281474976710656)"
  "ddiv (5319877059831399 / 281474976710656) (8106479329266893 / 9007199254740992) = Some (5910974510923777 / 281474976710656)"
  by (simp_all add: double_defs)

lemma cex_before: "screenToWorld (wheelDownAt 108 81) viewportAt initial = Some (100, 21)"
  by (simp add: screenToWorld_def wheelDownAt_def viewportAt_def initial_def wheel_example_ops)

lemma cex_step: "wheel (wheelDownAt 108 81) viewportAt initial = Some steppedOut"
  by (simp add: wheel_def wheelDownAt_def viewportAt_def initial_def steppedOut_def
      scheduleSave_def tenth_value wheel_example_ops)

lemma cex_after: "screenToWorld (wheelDownAt 108 81) viewportAt steppedOut
    = Some (100, 5910974510923777 / 281474976710656)"
  by (simp add: screenToWorld_def wheelDownAt_def viewportAt_def initial_def steppedOut_def
      wheel_example_ops)


lemma toDouble_Some: "toDouble x = Some y \<Longrightarrow> y = fl x"
  by (simp add: toDouble_def Let_def split: if_splits)

lemma toDouble_err:
  "toDouble x = Some y \<Longrightarrow> \<bar>y - x\<bar> \<le> unitRoundoff * \<bar>x\<bar> + tiny"
  using fl_err [of x] toDouble_Some [of x y] by simp

lemma tenth_range: "1 / 10 \<le> tenth \<and> tenth \<le> 2"
  by (simp add: tenth_value)

text \<open>One axis of the step: \<open>w\<close> the world coordinate before, \<open>m\<close> the cursor's offset,
  \<open>z\<close> the new zoom; \<open>t\<close>, \<open>p\<close>, \<open>d\<close> and \<open>w'\<close> the rounded results of
  \<open>w * z\<close>, \<open>m - t\<close>, \<open>m - p\<close> and \<open>d / z\<close>.\<close>

lemma anchor_err:
  assumes z: "1 / 10 \<le> z" "z \<le> 2"
    and t: "\<bar>t - w * z\<bar> \<le> unitRoundoff * \<bar>w * z\<bar> + tiny"
    and p: "\<bar>p - (m - t)\<bar> \<le> unitRoundoff * \<bar>m - t\<bar> + tiny"
    and d: "\<bar>d - (m - p)\<bar> \<le> unitRoundoff * \<bar>m - p\<bar> + tiny"
    and w': "\<bar>w' - d / z\<bar> \<le> unitRoundoff * \<bar>d / z\<bar> + tiny"
  shows "\<bar>w' - w\<bar> \<le> 100 * (unitRoundoff * (\<bar>w\<bar> + \<bar>m\<bar>) + tiny)"
proof -
  define u :: real where "u = 1 / 9007199254740992"
  have u: "unitRoundoff = u" by (simp add: unitRoundoff_def u_def)
  have u0: "0 \<le> u" by (simp add: u_def)
  have eta: "0 \<le> tiny" by (simp add: tiny_def)
  define e1 where "e1 = t - w * z"
  define e2 where "e2 = p - (m - t)"
  define e3 where "e3 = d - (m - p)"
  define e4 where "e4 = w' - d / z"
  define E1 where "E1 = \<bar>e1\<bar>"
  define E2 where "E2 = \<bar>e2\<bar>"
  define E3 where "E3 = \<bar>e3\<bar>"
  define E4 where "E4 = \<bar>e4\<bar>"
  define W where "W = \<bar>w\<bar>"
  define M where "M = \<bar>m\<bar>"
  define T where "T = \<bar>t\<bar>"
  have z0: "0 < z" using z by simp
  have wz: "\<bar>w * z\<bar> \<le> 2 * W"
  proof -
    have "\<bar>w * z\<bar> = \<bar>w\<bar> * z" using z0 by (simp add: abs_mult)
    also have "\<dots> \<le> \<bar>w\<bar> * 2" using z by (intro mult_left_mono) simp_all
    finally show ?thesis by (simp add: W_def)
  qed
  have b1: "E1 \<le> u * (2 * W) + tiny"
  proof -
    have "u * \<bar>w * z\<bar> \<le> u * (2 * W)" using wz u0 by (rule mult_left_mono)
    with t show ?thesis by (simp add: E1_def e1_def u)
  qed
  have tT: "T \<le> 2 * W + E1"
  proof -
    have "t = w * z + e1" by (simp add: e1_def)
    then have "\<bar>t\<bar> \<le> \<bar>w * z\<bar> + \<bar>e1\<bar>" by (simp only: abs_triangle_ineq)
    with wz show ?thesis by (simp add: T_def E1_def)
  qed
  have b2: "E2 \<le> u * (M + T) + tiny"
  proof -
    have "\<bar>m - t\<bar> \<le> M + T" unfolding M_def T_def by (rule abs_triangle_ineq4)
    then have "u * \<bar>m - t\<bar> \<le> u * (M + T)" using u0 by (rule mult_left_mono)
    with p show ?thesis by (simp add: E2_def e2_def u)
  qed
  have mp: "\<bar>m - p\<bar> \<le> T + E2"
  proof -
    have "m - p = t - e2" by (simp add: e2_def)
    then show ?thesis unfolding T_def E2_def by (simp only: abs_triangle_ineq4)
  qed
  have b3: "E3 \<le> u * (T + E2) + tiny"
  proof -
    have "u * \<bar>m - p\<bar> \<le> u * (T + E2)" using mp u0 by (rule mult_left_mono)
    with d show ?thesis by (simp add: E3_def e3_def u)
  qed
  have dd: "\<bar>d\<bar> \<le> T + E2 + E3"
  proof -
    have "d = (t - e2) + e3" by (simp add: e3_def e2_def)
    then have "\<bar>d\<bar> \<le> \<bar>t - e2\<bar> + \<bar>e3\<bar>" by (simp only: abs_triangle_ineq)
    moreover have "\<bar>t - e2\<bar> \<le> \<bar>t\<bar> + \<bar>e2\<bar>" by (rule abs_triangle_ineq4)
    ultimately show ?thesis by (simp add: T_def E2_def E3_def)
  qed
  have div10: "\<bar>a / z\<bar> \<le> 10 * \<bar>a\<bar>" for a
  proof -
    have "\<bar>a / z\<bar> = \<bar>a\<bar> / z" using z0 by simp
    also have "\<dots> \<le> \<bar>a\<bar> / (1 / 10)" using z by (intro divide_left_mono) simp_all
    finally show ?thesis by simp
  qed
  have b4: "E4 \<le> u * (10 * (T + E2 + E3)) + tiny"
  proof -
    have "\<bar>d / z\<bar> \<le> 10 * (T + E2 + E3)" using div10 [of d] dd by simp
    then have "u * \<bar>d / z\<bar> \<le> u * (10 * (T + E2 + E3))" using u0 by (rule mult_left_mono)
    with w' show ?thesis by (simp add: E4_def e4_def u)
  qed
  have id: "w' - w = (e1 - e2 + e3) / z + e4"
    using z0 by (simp add: e1_def e2_def e3_def e4_def field_simps)
  have "\<bar>w' - w\<bar> \<le> \<bar>(e1 - e2 + e3) / z\<bar> + \<bar>e4\<bar>"
    unfolding id by (rule abs_triangle_ineq)
  moreover have "\<bar>(e1 - e2 + e3) / z\<bar> \<le> 10 * \<bar>e1 - e2 + e3\<bar>" by (rule div10)
  moreover have "\<bar>e1 - e2 + e3\<bar> \<le> E1 + E2 + E3"
    unfolding E1_def E2_def E3_def by linarith
  ultimately have fin: "\<bar>w' - w\<bar> \<le> 10 * (E1 + E2 + E3) + E4"
    by (simp add: E4_def)
  have nn: "0 \<le> W" "0 \<le> M" by (simp_all add: W_def M_def)
  have "10 * (E1 + E2 + E3) + E4 \<le> 100 * (u * (W + M) + tiny)"
    using b1 tT b2 b3 b4 eta nn unfolding u_def by argo
  with fin show ?thesis unfolding u W_def M_def by linarith
qed


lemma double_ops:
  "dadd a b = Some y \<Longrightarrow> \<bar>y - (a + b)\<bar> \<le> unitRoundoff * \<bar>a + b\<bar> + tiny"
  "dsub a b = Some y \<Longrightarrow> \<bar>y - (a - b)\<bar> \<le> unitRoundoff * \<bar>a - b\<bar> + tiny"
  "dmul a b = Some y \<Longrightarrow> \<bar>y - a * b\<bar> \<le> unitRoundoff * \<bar>a * b\<bar> + tiny"
  "ddiv a b = Some y \<Longrightarrow> \<bar>y - a / b\<bar> \<le> unitRoundoff * \<bar>a / b\<bar> + tiny"
proof -
  show "dadd a b = Some y \<Longrightarrow> \<bar>y - (a + b)\<bar> \<le> unitRoundoff * \<bar>a + b\<bar> + tiny"
    unfolding dadd_def by (rule toDouble_err)
  show "dsub a b = Some y \<Longrightarrow> \<bar>y - (a - b)\<bar> \<le> unitRoundoff * \<bar>a - b\<bar> + tiny"
    unfolding dsub_def by (rule toDouble_err)
  show "dmul a b = Some y \<Longrightarrow> \<bar>y - a * b\<bar> \<le> unitRoundoff * \<bar>a * b\<bar> + tiny"
    unfolding dmul_def by (rule toDouble_err)
  show "ddiv a b = Some y \<Longrightarrow> \<bar>y - a / b\<bar> \<le> unitRoundoff * \<bar>a / b\<bar> + tiny"
  proof -
    assume "ddiv a b = Some y"
    then have "toDouble (a / b) = Some y" by (simp add: ddiv_def split: if_splits)
    then show ?thesis by (rule toDouble_err)
  qed
qed

lemma wheel_Some:
  assumes "pe_shiftKey e" and "wheel e r s = Some s'"
  obtains z mx my dx wx dy wy sx sy where
    "dadd (zoom s) (if pe_deltaY e > 0 then - tenth else tenth) = Some z"
    "zoom s' = min 2 (max tenth z)"
    "dsub (pe_clientX e) (v_left r) = Some mx" "dsub (pe_clientY e) (v_top r) = Some my"
    "dsub mx (panX s) = Some dx" "ddiv dx (zoom s) = Some wx"
    "dsub my (panY s) = Some dy" "ddiv dy (zoom s) = Some wy"
    "dmul wx (zoom s') = Some sx" "dsub mx sx = Some (panX s')"
    "dmul wy (zoom s') = Some sy" "dsub my sy = Some (panY s')"
    "s' = scheduleSave (s\<lparr>zoom := zoom s', panX := panX s', panY := panY s'\<rparr>)"
  using assms
  by (auto simp: wheel_def Let_def bind_eq_Some_conv scheduleSave_def)

lemma wheel_zoom_in_range:
  assumes "pe_shiftKey e" and "wheel e r s = Some s'"
  shows "1 / 10 \<le> zoom s' \<and> zoom s' \<le> 2"
proof -
  from assms obtain z where "zoom s' = min 2 (max tenth z)" by (rule wheel_Some)
  then show ?thesis using tenth_range by (simp add: min_def max_def)
qed

lemma wheel_without_shift: "\<not> pe_shiftKey e \<Longrightarrow> wheel e r s = Some s"
  by (simp add: wheel_def)


text \<open>
  C3 (as amended). A wheel zoom step (the wheel event with Shift held) recomputes the pan
  from the world point under the cursor, in double arithmetic. Whenever the step and the
  two readings of \<open>screenToWorld\<close> at the event's point are finite, the reading after
  the step differs from the reading before it, in each coordinate, by no more than the
  rounding of the step's operations: at most 100 times (2 to the -53 times the sum of
  the magnitudes of the world coordinate and of the cursor's offset in the viewport,
  plus 2 to the -1075). The two readings need not be equal.
\<close>

theorem wheel_cursor_anchored:
  assumes sh: "pe_shiftKey e" and w: "wheel e r s = Some s'"
    and b: "screenToWorld e r s = Some (x, y)"
    and a: "screenToWorld e r s' = Some (x', y')"
  shows "\<bar>x' - x\<bar> \<le> 100 * (unitRoundoff * (\<bar>x\<bar> + \<bar>fl (pe_clientX e - v_left r)\<bar>) + tiny)
     \<and> \<bar>y' - y\<bar> \<le> 100 * (unitRoundoff * (\<bar>y\<bar> + \<bar>fl (pe_clientY e - v_top r)\<bar>) + tiny)"
proof -
  from sh w obtain z mx my dx wx dy wy sx sy where
    o: "zoom s' = min 2 (max tenth z)"
       "dsub (pe_clientX e) (v_left r) = Some mx" "dsub (pe_clientY e) (v_top r) = Some my"
       "dsub mx (panX s) = Some dx" "ddiv dx (zoom s) = Some wx"
       "dsub my (panY s) = Some dy" "ddiv dy (zoom s) = Some wy"
       "dmul wx (zoom s') = Some sx" "dsub mx sx = Some (panX s')"
       "dmul wy (zoom s') = Some sy" "dsub my sy = Some (panY s')"
    by (rule wheel_Some)
  have zr: "1 / 10 \<le> zoom s'" "zoom s' \<le> 2"
    using wheel_zoom_in_range [OF sh w] by simp_all
  have mx: "mx = fl (pe_clientX e - v_left r)" and my: "my = fl (pe_clientY e - v_top r)"
    using o(2,3) by (simp_all add: dsub_def toDouble_Some)
  have before: "x = wx" "y = wy"
    using b o(2-7) by (simp_all add: screenToWorld_def)
  from a o(2,3) obtain ax ay where
    af: "dsub mx (panX s') = Some ax" "ddiv ax (zoom s') = Some x'"
        "dsub my (panY s') = Some ay" "ddiv ay (zoom s') = Some y'"
    by (auto simp: screenToWorld_def bind_eq_Some_conv)
  have "\<bar>x' - wx\<bar> \<le> 100 * (unitRoundoff * (\<bar>wx\<bar> + \<bar>mx\<bar>) + tiny)"
    using zr double_ops(3) [OF o(8)] double_ops(2) [OF o(9)] double_ops(2) [OF af(1)]
      double_ops(4) [OF af(2)]
    by (rule anchor_err)
  moreover have "\<bar>y' - wy\<bar> \<le> 100 * (unitRoundoff * (\<bar>wy\<bar> + \<bar>my\<bar>) + tiny)"
    using zr double_ops(3) [OF o(10)] double_ops(2) [OF o(11)] double_ops(2) [OF af(3)]
      double_ops(4) [OF af(4)]
    by (rule anchor_err)
  ultimately show ?thesis by (simp add: before mx my)
qed


lemma toDouble_finite:
  assumes "\<bar>x\<bar> \<le> B" and "1 \<le> B" and "B \<le> 2 ^ 1022"
  shows "\<exists>y. toDouble x = Some y \<and> \<bar>y\<bar> \<le> 2 * B"
proof -
  have u: "unitRoundoff \<le> 1 / 2" "0 \<le> unitRoundoff" by (simp_all add: unitRoundoff_def)
  have t: "tiny \<le> 1 / 2" by (simp add: tiny_def power_int_minus)
  have "unitRoundoff * \<bar>x\<bar> \<le> (1 / 2) * B"
    using u assms(1) by (intro mult_mono) simp_all
  with fl_err [of x] t assms(1,2) have b: "\<bar>fl x\<bar> \<le> 2 * B" by linarith
  have "2 * B \<le> 2 * 2 ^ 1022" using assms(3) by simp
  also have "\<dots> < (2::real) ^ 1024" by simp
  finally have "\<bar>fl x\<bar> < 2 ^ 1024" using b by linarith
  with b show ?thesis by (simp add: toDouble_def Let_def)
qed

lemma quotient_bound:
  fixes a z B :: real
  assumes "1 / 10 \<le> z" and "\<bar>a\<bar> \<le> B"
  shows "\<bar>a / z\<bar> \<le> 10 * B"
proof -
  have z0: "0 < z" using assms(1) by simp
  have "\<bar>a / z\<bar> = \<bar>a\<bar> / z" using z0 by simp
  also have "\<dots> \<le> \<bar>a\<bar> / (1 / 10)" using assms(1) by (intro divide_left_mono) simp_all
  finally show ?thesis using assms(2) by simp
qed

lemma product_bound:
  fixes a z B :: real
  assumes "0 \<le> z" and "z \<le> 2" and "\<bar>a\<bar> \<le> B"
  shows "\<bar>a * z\<bar> \<le> 2 * B"
proof -
  have "\<bar>a * z\<bar> = \<bar>a\<bar> * z" using assms(1) by (simp add: abs_mult)
  also have "\<dots> \<le> B * 2" using assms by (intro mult_mono) simp_all
  finally show ?thesis by simp
qed

text \<open>One axis of a step and of the two readings around it stays within the doubles
  when the old and the new zoom lie in [0.1, 2] and offset and pan are of moderate size.\<close>

lemma axis_finite:
  assumes zs: "1 / 10 \<le> zs" and nz: "1 / 10 \<le> nz" "nz \<le> 2"
    and c: "\<bar>c - off\<bar> \<le> K" and pn: "\<bar>pan\<bar> \<le> K" and K: "1 \<le> K" "K \<le> 2 ^ 1000"
  shows "\<exists>m dx w sx p a w'. dsub c off = Some m \<and> dsub m pan = Some dx \<and> ddiv dx zs = Some w
     \<and> dmul w nz = Some sx \<and> dsub m sx = Some p \<and> dsub m p = Some a \<and> ddiv a nz = Some w'"
proof -
  have big: "c' * K \<le> 2 ^ 1022" if "c' \<le> 2 ^ 22" "0 \<le> c'" for c' :: real
  proof -
    have "c' * K \<le> 2 ^ 22 * 2 ^ 1000" using that K by (intro mult_mono) simp_all
    also have "\<dots> = (2::real) ^ 1022" by (simp add: power_add [symmetric])
    finally show ?thesis .
  qed
  from toDouble_finite [of "c - off" K] c K big [of 1] obtain m where
    m: "dsub c off = Some m" "\<bar>m\<bar> \<le> 2 * K" by (auto simp: dsub_def)
  have "\<bar>m - pan\<bar> \<le> 3 * K" using m(2) pn by linarith
  from toDouble_finite [OF this] K big [of 3] obtain dx where
    dx: "dsub m pan = Some dx" "\<bar>dx\<bar> \<le> 6 * K" by (auto simp: dsub_def)
  have "\<bar>dx / zs\<bar> \<le> 60 * K" using quotient_bound [OF zs dx(2)] by simp
  from toDouble_finite [OF this] K big [of 60] zs obtain w where
    w: "ddiv dx zs = Some w" "\<bar>w\<bar> \<le> 120 * K" by (auto simp: ddiv_def)
  have "\<bar>w * nz\<bar> \<le> 240 * K" using product_bound [OF _ nz(2) w(2)] nz(1) by simp
  from toDouble_finite [OF this] K big [of 240] obtain sx where
    sx: "dmul w nz = Some sx" "\<bar>sx\<bar> \<le> 480 * K" by (auto simp: dmul_def)
  have "\<bar>m - sx\<bar> \<le> 482 * K" using m(2) sx(2) by linarith
  from toDouble_finite [OF this] K big [of 482] obtain p where
    p: "dsub m sx = Some p" "\<bar>p\<bar> \<le> 964 * K" by (auto simp: dsub_def)
  have "\<bar>m - p\<bar> \<le> 966 * K" using m(2) p(2) by linarith
  from toDouble_finite [OF this] K big [of 966] obtain a where
    a: "dsub m p = Some a" "\<bar>a\<bar> \<le> 1932 * K" by (auto simp: dsub_def)
  have "\<bar>a / nz\<bar> \<le> 19320 * K" using quotient_bound [OF nz(1) a(2)] by simp
  from toDouble_finite [OF this] K big [of 19320] nz obtain w' where
    w': "ddiv a nz = Some w'" by (auto simp: ddiv_def)
  from m(1) dx(1) w(1) sx(1) p(1) a(1) w' show ?thesis by blast
qed

text \<open>For a zoom in [0.1, 2.0] and offsets and pans up to 2 to the 1000, the step and the
  readings before and after it are finite.\<close>

lemma wheel_finite:
  assumes sh: "pe_shiftKey e" and zs: "1 / 10 \<le> zoom s" "zoom s \<le> 2"
    and cx: "\<bar>pe_clientX e - v_left r\<bar> \<le> K" and cy: "\<bar>pe_clientY e - v_top r\<bar> \<le> K"
    and px: "\<bar>panX s\<bar> \<le> K" and py: "\<bar>panY s\<bar> \<le> K"
    and K: "1 \<le> K" "K \<le> 2 ^ 1000"
  shows "\<exists>s' v v'. wheel e r s = Some s' \<and> screenToWorld e r s = Some v
     \<and> screenToWorld e r s' = Some v'"
proof -
  let ?delta = "if pe_deltaY e > 0 then - tenth else tenth"
  have "\<bar>zoom s + ?delta\<bar> \<le> 4" using zs tenth_range by auto
  from toDouble_finite [OF this] obtain z where z: "dadd (zoom s) ?delta = Some z"
    by (auto simp: dadd_def)
  define nz where "nz = min 2 (max tenth z)"
  have nz: "1 / 10 \<le> nz" "nz \<le> 2" using tenth_range by (simp_all add: nz_def min_def max_def)
  from axis_finite [OF zs(1) nz cx px K] obtain mx dx wx sx p a x' where
    X: "dsub (pe_clientX e) (v_left r) = Some mx" "dsub mx (panX s) = Some dx"
       "ddiv dx (zoom s) = Some wx" "dmul wx nz = Some sx" "dsub mx sx = Some p"
       "dsub mx p = Some a" "ddiv a nz = Some x'"
    by blast
  from axis_finite [OF zs(1) nz cy py K] obtain my dy wy sy q b y' where
    Y: "dsub (pe_clientY e) (v_top r) = Some my" "dsub my (panY s) = Some dy"
       "ddiv dy (zoom s) = Some wy" "dmul wy nz = Some sy" "dsub my sy = Some q"
       "dsub my q = Some b" "ddiv b nz = Some y'"
    by blast
  let ?s' = "scheduleSave (s\<lparr>zoom := nz, panX := p, panY := q\<rparr>)"
  have 1: "wheel e r s = Some ?s'"
    using sh z X Y by (simp add: wheel_def Let_def nz_def)
  have 2: "screenToWorld e r s = Some (wx, wy)"
    using X Y by (simp add: screenToWorld_def)
  have 3: "screenToWorld e r ?s' = Some (x', y')"
    using X Y by (simp add: screenToWorld_def scheduleSave_def)
  from 1 2 3 show ?thesis by blast
qed

theorem wheel_cursor_anchored_witness:
  "pe_shiftKey (wheelDownAt 108 81)
   \<and> wheel (wheelDownAt 108 81) viewportAt initial = Some steppedOut
   \<and> screenToWorld (wheelDownAt 108 81) viewportAt initial = Some (100, 21)
   \<and> screenToWorld (wheelDownAt 108 81) viewportAt steppedOut
       = Some (100, 5910974510923777 / 281474976710656)
   \<and> \<bar>5910974510923777 / 281474976710656 - 21\<bar>
       \<le> 100 * (unitRoundoff * (\<bar>21\<bar> + \<bar>fl (pe_clientY (wheelDownAt 108 81) - v_top viewportAt)\<bar>)
                + tiny)"
proof -
  have sh: "pe_shiftKey (wheelDownAt 108 81)" by (simp add: wheelDownAt_def)
  from wheel_cursor_anchored [OF sh cex_step cex_before cex_after] sh cex_step cex_before cex_after
  show ?thesis by blast
qed

text \<open>
  C3, as stated, fails: on the page as loaded (zoom 1, pan 0) one wheel step down at
  (108, 81) moves the world point under the cursor from (100, 21) to
  (100, 21.000000000000004).
\<close>

theorem wheel_moves_world_point:
  "1 / 10 \<le> zoom initial \<and> zoom initial \<le> 2
   \<and> wheel (wheelDownAt 108 81) viewportAt initial = Some steppedOut
   \<and> screenToWorld (wheelDownAt 108 81) viewportAt initial = Some (100, 21)
   \<and> screenToWorld (wheelDownAt 108 81) viewportAt steppedOut
       = Some (100, 5910974510923777 / 281474976710656)
   \<and> screenToWorld (wheelDownAt 108 81) viewportAt steppedOut
       \<noteq> screenToWorld (wheelDownAt 108 81) viewportAt initial"
  using cex_step cex_before cex_after by (simp add: initial_def)

text \<open>
  C4 (the code departs from the claim). Loading the stored state copies \<^verbatim>\<open>meta.zoom\<close>
  into \<^verbatim>\<open>zoom\<close> whenever it is a number, with no clamp: from a blob whose
  \<^verbatim>\<open>meta.zoom\<close> is 5 the page starts with zoom 5, outside [0.1, 2.0].
\<close>

theorem load_zoom_unclamped:
  "zoom (run (Some (ParsedDoc zoomedDoc)) []) = 5
   \<and> \<not> zoom (run (Some (ParsedDoc zoomedDoc)) []) \<le> 2"
  by (simp add: run_def loadFromStorage_def assignDoc_def assignMeta_def zoomedDoc_def
      initial_def)

subsection \<open>Load and import\<close>

text \<open>
  C9. Loading: with no stored blob the state is unchanged; a blob that fails to parse
  (or parses to null) changes nothing but the console's warnings, and no load ever
  raises an alert; a parsed blob's missing collections become empty and its missing
  viewport numbers leave zoom and pan as they were. Importing a file that fails to parse
  (or parses to null) appends the alert "Invalid state file" and changes no other
  component of the state.
\<close>

theorem parse_failure_handling:
  "loadFromStorage None s = s
   \<and> (p = ParseFail \<or> p = ParsedNull \<longrightarrow>
        loadFromStorage (Some p) s
          = s\<lparr>consoleWarnings := consoleWarnings s @ [''Failed to load autosave'']\<rparr>)
   \<and> alerts (loadFromStorage raw s) = alerts s
   \<and> (doc_nodes d = None \<longrightarrow> nodes (loadFromStorage (Some (ParsedDoc d)) s) = [])
   \<and> (doc_edges d = None \<longrightarrow> edges (loadFromStorage (Some (ParsedDoc d)) s) = [])
   \<and> (doc_drawings d = None \<longrightarrow> drawings (loadFromStorage (Some (ParsedDoc d)) s) = [])
   \<and> (doc_textDrawings d = None \<longrightarrow>
        textDrawings (loadFromStorage (Some (ParsedDoc d)) s) = [])
   \<and> (doc_meta d = None \<longrightarrow>
        zoom (loadFromStorage (Some (ParsedDoc d)) s) = zoom s
        \<and> panX (loadFromStorage (Some (ParsedDoc d)) s) = panX s
        \<and> panY (loadFromStorage (Some (ParsedDoc d)) s) = panY s)
   \<and> (p = ParseFail \<or> p = ParsedNull \<longrightarrow>
        importState p s = s\<lparr>alerts := alerts s @ [''Invalid state file'']\<rparr>)"
proof -
  have a: "alerts (loadFromStorage raw s) = alerts s"
    by (simp add: loadFromStorage_def assignDoc_def assignMeta_def Let_def
        split: option.splits parsed.splits)
  have m: "doc_meta d = None \<longrightarrow>
        zoom (loadFromStorage (Some (ParsedDoc d)) s) = zoom s
        \<and> panX (loadFromStorage (Some (ParsedDoc d)) s) = panX s
        \<and> panY (loadFromStorage (Some (ParsedDoc d)) s) = panY s"
    by (simp add: loadFromStorage_def assignDoc_def)
  have c: "(doc_nodes d = None \<longrightarrow> nodes (loadFromStorage (Some (ParsedDoc d)) s) = [])
    \<and> (doc_edges d = None \<longrightarrow> edges (loadFromStorage (Some (ParsedDoc d)) s) = [])
    \<and> (doc_drawings d = None \<longrightarrow> drawings (loadFromStorage (Some (ParsedDoc d)) s) = [])
    \<and> (doc_textDrawings d = None \<longrightarrow>
        textDrawings (loadFromStorage (Some (ParsedDoc d)) s) = [])"
    by (simp add: loadFromStorage_def assignDoc_def assignMeta_def orEmpty_def Let_def
        split: option.splits)
  have l: "p = ParseFail \<or> p = ParsedNull \<longrightarrow>
        loadFromStorage (Some p) s
          = s\<lparr>consoleWarnings := consoleWarnings s @ [''Failed to load autosave'']\<rparr>"
    by (auto simp: loadFromStorage_def)
  have i: "p = ParseFail \<or> p = ParsedNull \<longrightarrow>
        importState p s = s\<lparr>alerts := alerts s @ [''Invalid state file'']\<rparr>"
    by (auto simp: importState_def)
  have n: "loadFromStorage None s = s"
    by (simp add: loadFromStorage_def)
  from n l a c m i show ?thesis by blast
qed

theorem parse_failure_handling_witness:
  "loadFromStorage None fourNodes = fourNodes
   \<and> loadFromStorage (Some ParseFail) fourNodes
       = fourNodes\<lparr>consoleWarnings := [''Failed to load autosave'']\<rparr>
   \<and> alerts (loadFromStorage (Some ParseFail) fourNodes) = []
   \<and> nodes (loadFromStorage (Some (ParsedDoc sparseDoc)) fourNodes) = []
   \<and> drawings (loadFromStorage (Some (ParsedDoc sparseDoc)) fourNodes) = []
   \<and> zoom (loadFromStorage (Some (ParsedDoc sparseDoc)) fourNodes) = 1
   \<and> importState ParseFail fourNodes = fourNodes\<lparr>alerts := [''Invalid state file'']\<rparr>
   \<and> nodes (importState ParseFail fourNodes) = [nodeA, nodeB, nodeC, nodeD]"
proof -
  have e: "consoleWarnings fourNodes = [] \<and> alerts fourNodes = [] \<and> zoom fourNodes = 1
      \<and> nodes fourNodes = [nodeA, nodeB, nodeC, nodeD]"
    by (simp add: fourNodes_def initial_def)
  have d: "doc_nodes sparseDoc = None \<and> doc_drawings sparseDoc = None
      \<and> doc_meta sparseDoc = None"
    by (simp add: sparseDoc_def)
  show ?thesis
    using e d parse_failure_handling [of fourNodes ParseFail "Some ParseFail" sparseDoc]
    by simp
qed

subsection \<open>Keyboard: delete, undo, redo\<close>

lemma lower_literals:
  "toLowerCase ''z'' = ''z''" "toLowerCase ''y'' = ''y''"
  "toLowerCase ''Z'' = ''z''" "toLowerCase ''v'' = ''v''"  "toLowerCase ''c'' = ''c''"
  "toLowerCase ''Delete'' = ''delete''" "toLowerCase ''Control'' = ''control''"
  "toLowerCase ''Shift'' = ''shift''" "toLowerCase ''Escape'' = ''escape''"
  by (simp_all add: toLowerCase_def lowerChar_def)

lemma length_toLowerCase: "length (toLowerCase k) = length k"
  by (simp add: toLowerCase_def)

lemmas key_defs = keydown_def keyFlags_def keyDelete_def keyNodeUndo_def keyNodeRedo_def
  keyEscape_def keyDrawUndo_def keyDrawRedo_def keyCopyPaste_def pressKey_def pressAltKey_def

lemma keydown_Delete:
  assumes "idsToDelete s = Some ids"
  shows "keydown (pressKey ''Delete'') True uuid s
     = scheduleSave (s\<lparr>nodeUndo := nodeUndo s @ [filter (\<lambda>n. n_id n \<in> set ids) (nodes s)],
                       nodeRedo := [],
                       nodes := filter (\<lambda>n. n_id n \<notin> set ids) (nodes s),
                       selectedIds := [],
                       focusedId := None\<rparr>)"
  using assms
  by (simp add: key_defs lower_literals scheduleSave_def Let_def)

lemma keydown_Control:
  "keydown (pressKey ''Control'') c uuid s = s\<lparr>ctrlDown := True\<rparr>"
  by (simp add: key_defs lower_literals scheduleSave_def Let_def)

lemma pop_snoc: "pop (xs @ [x]) = Some (x, xs)"
  by (simp add: pop_def)

lemma keydown_undo:
  assumes "interactionMode s = Normal" "ctrlDown s" "nodeUndo s = rest @ [lst]"
  shows "keydown (pressKey ''z'') c uuid s
     = scheduleSave (s\<lparr>nodeUndo := rest, nodes := nodes s @ lst, nodeRedo := nodeRedo s @ [lst]\<rparr>)"
  using assms
  by (simp add: key_defs lower_literals pop_snoc Let_def)

lemma keydown_redo:
  assumes "interactionMode s = Normal" "ctrlDown s" "nodeRedo s = rest @ [lst]"
  shows "keydown (pressKey ''y'') c uuid s
     = scheduleSave (s\<lparr>nodeRedo := rest,
          nodes := filter (\<lambda>n. n_id n \<notin> set (map n_id lst)) (nodes s),
          nodeUndo := nodeUndo s @ [lst]\<rparr>)"
  using assms
  by (simp add: key_defs lower_literals pop_snoc Let_def)

lemma redo_filter:
  "filter (\<lambda>n. n_id n \<notin> n_id ` set (filter (\<lambda>n. n_id n \<in> I) ns))
     (filter (\<lambda>n. n_id n \<notin> I) ns @ filter (\<lambda>n. n_id n \<in> I) ns)
   = filter (\<lambda>n. n_id n \<notin> I) ns"
proof -
  have 1: "filter (\<lambda>n. n_id n \<notin> n_id ` set (filter (\<lambda>n. n_id n \<in> I) ns)) (filter (\<lambda>n. n_id n \<in> I) ns) = []"
    by (auto simp: filter_empty_conv)
  have 2: "filter (\<lambda>n. n_id n \<notin> n_id ` set (filter (\<lambda>n. n_id n \<in> I) ns)) (filter (\<lambda>n. n_id n \<notin> I) ns) = filter (\<lambda>n. n_id n \<notin> I) ns"
    by (rule filter_True) auto
  show ?thesis using 1 2 by simp
qed

lemma idsToDelete_cases:
  "(selectedIds s \<noteq> [] \<longrightarrow> idsToDelete s = Some (selectedIds s))
   \<and> (selectedIds s = [] \<and> focusedId s = Some a \<and> a \<noteq> [] \<longrightarrow> idsToDelete s = Some [a])
   \<and> (selectedIds s = [] \<and> \<not> truthy (focusedId s) \<longrightarrow> idsToDelete s = None)"
  by (simp add: idsToDelete_def set_size_def truthy_def)

lemma keydown_Delete_declined: "keydown (pressKey ''Delete'') False uuid s = s"
  by (simp add: key_defs lower_literals Let_def split: option.splits)

text \<open>
  C5. The Delete key takes the whole selection when it is not empty and the focused node
  otherwise. Once confirmed, it pushes the list of all nodes deleted as one entry on the
  undo stack, empties the redo stack and removes those nodes. In normal mode a following
  Ctrl+Z appends exactly those nodes, unchanged, to the node list (which then holds the
  nodes it held before the deletion) and moves the entry to the redo stack; a following
  Ctrl+Y removes exactly the nodes whose id is in that batch, leaves every other node as
  it was, and moves the entry back to the undo stack.
\<close>

theorem delete_undo_redo:
  assumes "interactionMode s = Normal" and "idsToDelete s = Some ids"
  shows
    "(selectedIds s \<noteq> [] \<longrightarrow> ids = selectedIds s)
     \<and> (selectedIds s = [] \<longrightarrow> focusedId s = Some (hd ids) \<and> ids = [hd ids])
     \<and> (let deleted = filter (\<lambda>n. n_id n \<in> set ids) (nodes s);
          kept = filter (\<lambda>n. n_id n \<notin> set ids) (nodes s);
          s1 = keydown (pressKey ''Delete'') True u1 s;
          s2 = keydown (pressKey ''z'') c2 u2 (keydown (pressKey ''Control'') c0 u0 s1);
          s3 = keydown (pressKey ''y'') c3 u3 s2
      in nodeUndo s1 = nodeUndo s @ [deleted] \<and> nodeRedo s1 = [] \<and> nodes s1 = kept
         \<and> selectedIds s1 = [] \<and> focusedId s1 = None
         \<and> nodes s2 = kept @ deleted \<and> mset (nodes s2) = mset (nodes s)
         \<and> nodeUndo s2 = nodeUndo s \<and> nodeRedo s2 = [deleted]
         \<and> nodes s3 = filter (\<lambda>n. n_id n \<notin> set (map n_id deleted)) (nodes s2)
         \<and> nodes s3 = kept
         \<and> nodeUndo s3 = nodeUndo s @ [deleted] \<and> nodeRedo s3 = [])"
proof -
  let ?deleted = "filter (\<lambda>n. n_id n \<in> set ids) (nodes s)"
  let ?kept = "filter (\<lambda>n. n_id n \<notin> set ids) (nodes s)"
  let ?s1 = "keydown (pressKey ''Delete'') True u1 s"
  let ?s1c = "keydown (pressKey ''Control'') c0 u0 ?s1"
  let ?s2 = "keydown (pressKey ''z'') c2 u2 ?s1c"
  let ?s3 = "keydown (pressKey ''y'') c3 u3 ?s2"
  have s1: "?s1 = scheduleSave (s\<lparr>nodeUndo := nodeUndo s @ [?deleted], nodeRedo := [],
      nodes := ?kept, selectedIds := [], focusedId := None\<rparr>)"
    using assms(2) by (rule keydown_Delete)
  have s1c: "?s1c = ?s1\<lparr>ctrlDown := True\<rparr>"
    by (rule keydown_Control)
  have pre2: "interactionMode ?s1c = Normal" "ctrlDown ?s1c"
      "nodeUndo ?s1c = nodeUndo s @ [?deleted]" "nodeRedo ?s1c = []" "nodes ?s1c = ?kept"
    using assms(1) by (simp_all add: keydown_Control s1 scheduleSave_def)
  have s2: "?s2 = scheduleSave (?s1c\<lparr>nodeUndo := nodeUndo s, nodes := nodes ?s1c @ ?deleted,
      nodeRedo := nodeRedo ?s1c @ [?deleted]\<rparr>)"
    using pre2(1,2,3) by (rule keydown_undo)
  have pre3: "interactionMode ?s2 = Normal" "ctrlDown ?s2"
      "nodeRedo ?s2 = [] @ [?deleted]" "nodes ?s2 = ?kept @ ?deleted" "nodeUndo ?s2 = nodeUndo s"
    unfolding s2 using pre2 by (simp_all add: scheduleSave_def)
  have s3: "?s3 = scheduleSave (?s2\<lparr>nodeRedo := [],
      nodes := filter (\<lambda>n. n_id n \<notin> set (map n_id ?deleted)) (nodes ?s2),
      nodeUndo := nodeUndo ?s2 @ [?deleted]\<rparr>)"
    using pre3(1,2,3) by (rule keydown_redo)
  have n3: "nodes ?s3 = filter (\<lambda>n. n_id n \<notin> set (map n_id ?deleted)) (nodes ?s2)"
    unfolding s3 by (simp add: scheduleSave_def)
  have n3': "nodes ?s3 = ?kept"
    unfolding n3 pre3(4) using redo_filter [of "set ids" "nodes s"] by simp
  have u3: "nodeUndo ?s3 = nodeUndo s @ [?deleted]" "nodeRedo ?s3 = []"
    unfolding s3 using pre3(5) by (simp_all add: scheduleSave_def)
  have ms: "mset (nodes ?s2) = mset (nodes s)"
    unfolding pre3(4) by (simp add: union_commute)
  have f1: "nodeUndo ?s1 = nodeUndo s @ [?deleted]" "nodeRedo ?s1 = []" "nodes ?s1 = ?kept"
      "selectedIds ?s1 = []" "focusedId ?s1 = None"
    unfolding s1 by (simp_all add: scheduleSave_def)
  have r2: "nodeRedo ?s2 = [?deleted]" using pre3(3) by simp
  have i1: "selectedIds s \<noteq> [] \<longrightarrow> ids = selectedIds s"
    using assms(2) by (auto simp: idsToDelete_def set_size_def split: if_splits)
  have i2: "selectedIds s = [] \<longrightarrow> focusedId s = Some (hd ids) \<and> ids = [hd ids]"
    using assms(2) by (auto simp: idsToDelete_def set_size_def truthy_def split: if_splits option.splits)
  show ?thesis
    unfolding Let_def
    using i1 i2 f1 pre3(4) ms pre3(5) r2 n3 n3' u3 by (intro conjI)
qed

theorem delete_undo_redo_witness:
  "interactionMode threeSelected = Normal
   \<and> idsToDelete threeSelected = Some [''A'', ''C'', ''D'']
   \<and> nodes (keydown (pressKey ''Delete'') True uuidU threeSelected) = [nodeB]
   \<and> nodeUndo (keydown (pressKey ''Delete'') True uuidU threeSelected)
       = [nodeA, nodeC, nodeD] # []
   \<and> nodes (keydown (pressKey ''z'') True uuidU (keydown (pressKey ''Control'') True uuidU
        (keydown (pressKey ''Delete'') True uuidU threeSelected)))
       = [nodeB, nodeA, nodeC, nodeD]
   \<and> nodes (keydown (pressKey ''y'') True uuidU (keydown (pressKey ''z'') True uuidU
        (keydown (pressKey ''Control'') True uuidU
          (keydown (pressKey ''Delete'') True uuidU threeSelected))))
       = [nodeB]"
proof -
  have h: "interactionMode threeSelected = Normal
      \<and> idsToDelete threeSelected = Some [''A'', ''C'', ''D'']"
    by (simp add: threeSelected_def fourNodes_def initial_def idsToDelete_def set_size_def)
  have n: "nodes threeSelected = [nodeA, nodeB, nodeC, nodeD]" "nodeUndo threeSelected = []"
    by (simp_all add: threeSelected_def fourNodes_def initial_def)
  show ?thesis
    using h delete_undo_redo [of threeSelected "[''A'', ''C'', ''D'']" uuidU True uuidU
        True uuidU True uuidU]
    by (simp add: Let_def n nodeA_def nodeB_def nodeC_def nodeD_def)
qed


subsection \<open>Paste\<close>

lemma lower_v_key:
  assumes "toLowerCase k = ''v''"
  shows "k \<noteq> ''Shift'' \<and> k \<noteq> ''Control'' \<and> k \<noteq> ''Delete'' \<and> k \<noteq> ''Escape''
     \<and> toLowerCase k \<noteq> ''z'' \<and> toLowerCase k \<noteq> ''y'' \<and> toLowerCase k \<noteq> ''c''"
  using assms length_toLowerCase [of k] by auto

lemma keydown_paste:
  assumes "interactionMode s = Normal" "ctrlDown s" "ke_altKey e"
    "toLowerCase (ke_key e) = ''v''" "clipboard s = Some c"
  shows "keydown e cfm uuid s = pasteNodes uuid c s"
  using assms lower_v_key [OF assms(4)]
  by (simp add: keydown_def keyFlags_def keyDelete_def keyNodeUndo_def keyNodeRedo_def
      keyEscape_def keyDrawUndo_def keyDrawRedo_def keyCopyPaste_def Let_def)




lemma length_cloneAll: "length (cloneAll uuid ns) = length ns"
  by (simp add: cloneAll_def)

lemma nth_cloneAll:
  "k < length ns \<Longrightarrow> cloneAll uuid ns ! k
     = (ns ! k)\<lparr>n_id := uuid k, n_x := n_x (ns ! k) + 40, n_y := n_y (ns ! k) + 40\<rparr>"
  by (simp add: cloneAll_def cloneNode_def deepCopy_def Let_def)


lemma pasteNodes_eq:
  "pasteNodes uuid c s =
     (let clones = cloneAll uuid (clipNodes c)
      in s\<lparr>nodes := nodes s @ clones,
           focusedId := (if clones = [] then focusedId s else Some (uuid 0)),
           selectedIds := fold (\<lambda>c a. set_add (n_id c) a) clones [],
           isDirty := True\<rparr>)"
proof (cases c)
  case (Single n)
  have "cloneAll uuid [n] = [cloneNode (uuid 0) n]" by (simp add: cloneAll_def)
  then show ?thesis using Single
    by (simp add: pasteNodes_def pasteSingle_def pasteMulti_def clipNodes_def Let_def
        scheduleSave_def cloneNode_def deepCopy_def)
next
  case (Multi ns)
  show ?thesis
  proof (cases "ns = []")
    case True
    then show ?thesis using Multi
      by (simp add: pasteNodes_def pasteSingle_def pasteMulti_def clipNodes_def Let_def
        scheduleSave_def cloneAll_def)
  next
    case False
    then have ne: "cloneAll uuid ns \<noteq> []" using length_cloneAll [of uuid ns] by auto
    have "n_id (hd (cloneAll uuid ns)) = uuid 0"
      using False nth_cloneAll [of 0 ns uuid] ne by (simp add: hd_conv_nth)
    then show ?thesis using Multi ne
      by (simp add: pasteNodes_def pasteSingle_def pasteMulti_def clipNodes_def Let_def
        scheduleSave_def)
  qed
qed


lemmas node_defs = nodeA_def nodeB_def nodeC_def nodeD_def

lemma focusedOnA_eq:
  "focusedOnA = fourNodes\<lparr>focusedId := Some ''A'', selectedIds := [''A'']\<rparr>"
  by (simp add: focusedOnA_def nodeDblClick_def fourNodes_def initial_def truthy_def
      leftButtonAt_def set_add_def)





subsection \<open>Focus\<close>

text \<open>
  C2. While a node holds the focus (\<^verbatim>\<open>focusedId\<close> is a non-empty id), a press on the
  element of any other node that is not in the selection, with Ctrl up, returns before
  it changes anything and attaches no drag: whatever the pointer does afterwards, the
  whole state is as before, and with it that node's position.
\<close>

theorem focus_hard_lock:
  assumes "focusedId s = Some a" and "a \<noteq> []" and "a \<noteq> b"
    and "\<not> set_has b (selectedIds s)" and "\<not> ctrlDown s"
  shows "nodeMouseDown b e s = (s, None)
     \<and> dragGesture b e moves s = s
     \<and> map_option n_x (findNode b (nodes (dragGesture b e moves s)))
         = map_option n_x (findNode b (nodes s))
     \<and> map_option n_y (findNode b (nodes (dragGesture b e moves s)))
         = map_option n_y (findNode b (nodes s))"
proof -
  have "nodeMouseDown b e s = (s, None)"
    using assms by (simp add: nodeMouseDown_def truthy_def Let_def)
  then show ?thesis by (simp add: dragGesture_def)
qed

theorem focus_hard_lock_witness:
  "focusedId focusedOnA = Some ''A'' \<and> ''A'' \<noteq> [] \<and> ''A'' \<noteq> ''B''
   \<and> \<not> set_has ''B'' (selectedIds focusedOnA) \<and> \<not> ctrlDown focusedOnA
   \<and> dragGesture ''B'' (leftButtonAt 610 110) [leftButtonAt 650 150, leftButtonAt 700 300]
       focusedOnA = focusedOnA
   \<and> map_option n_x (findNode ''B'' (nodes (dragGesture ''B'' (leftButtonAt 610 110)
       [leftButtonAt 650 150, leftButtonAt 700 300] focusedOnA))) = Some 600"
proof -
  have h: "focusedId focusedOnA = Some ''A'' \<and> ''A'' \<noteq> [] \<and> ''A'' \<noteq> ''B''
      \<and> \<not> set_has ''B'' (selectedIds focusedOnA) \<and> \<not> ctrlDown focusedOnA"
    by (simp add: focusedOnA_eq fourNodes_def initial_def set_has_def)
  have x: "map_option n_x (findNode ''B'' (nodes focusedOnA)) = Some 600"
    by (simp add: focusedOnA_eq fourNodes_def initial_def findNode_def node_defs)
  show ?thesis
    using h x focus_hard_lock [of focusedOnA "''A''" "''B''" "leftButtonAt 610 110"
        "[leftButtonAt 650 150, leftButtonAt 700 300]"]
    by simp
qed

text \<open>The same gesture with no node focused does move the node: by (90, 190) here.\<close>

lemma drag_moves_unlocked_node:
  "map (\<lambda>n. (n_id n, n_x n, n_y n))
     (nodes (dragGesture ''B'' (leftButtonAt 610 110)
        [leftButtonAt 650 150, leftButtonAt 700 300] fourNodes))
   = [(''A'', 100, 100), (''B'', 690, 290), (''C'', 0, 500), (''D'', - 50, - 50)]"
  by (simp add: dragGesture_def nodeMouseDown_def dragMove_def dragUp_def dragStarts_def
      fourNodes_def initial_def leftButtonAt_def set_size_def set_has_def set_add_def
      truthy_def findNode_def scheduleSave_def node_defs Let_def)

subsection \<open>What changes the focus\<close>

lemmas handler_defs = run_def loadFromStorage_def assignDoc_def assignMeta_def orEmpty_def
  nodeMouseDown_def nodeDblClick_def dragUp_def dragStarts_def keyup_def
  set_size_def set_has_def set_add_def set_delete_def truthy_def findNode_def
  scheduleSave_def idsToDelete_def pop_def initial_def leftButtonAt_def storedDoc_def
  Let_def

lemma keydown_Alt: "keydown (pressAltKey ''Alt'') cfm u s = s"
  by (simp add: key_defs toLowerCase_def lowerChar_def Let_def)

lemma keydown_copy:
  "ctrlDown s \<Longrightarrow> interactionMode s = Normal
   \<Longrightarrow> keydown (pressAltKey ''c'') cfm u s = copyNodes s"
  by (simp add: key_defs lower_literals Let_def)

lemma storedDoc_loaded:
  "loadFromStorage (Some (ParsedDoc storedDoc)) initial = initial\<lparr>nodes := [nodeA, nodeB]\<rparr>"
  by (simp add: loadFromStorage_def assignDoc_def orEmpty_def storedDoc_def initial_def Let_def)

lemma pairPasted_eq:
  "pairPasted = initial\<lparr>
      nodes := [nodeA, nodeB, nodeA\<lparr>n_id := ''u'', n_x := 140, n_y := 140\<rparr>,
                nodeB\<lparr>n_id := ''uu'', n_x := 640, n_y := 140\<rparr>],
      focusedId := Some ''u'', selectedIds := [''u'', ''uu''],
      clipboard := Some (Multi [nodeA, nodeB]), selectStart := Some (50, 100),
      isDirty := True\<rparr>"
proof -
  let ?boxed = "initial\<lparr>nodes := [nodeA, nodeB], ctrlDown := True,
      selectedIds := [''A'', ''B''], selectStart := Some (50, 100), isDirty := True\<rparr>"
  let ?copied = "?boxed\<lparr>clipboard := Some (Multi [nodeA, nodeB])\<rparr>"
  have a: "selectUp (leftButtonAt 900 900) renderedAB
      (windowMouseUp (viewportMouseDown (leftButtonAt 50 100)
        (keydown (pressKey ''Control'') True uuidU (initial\<lparr>nodes := [nodeA, nodeB]\<rparr>))))
      = ?boxed"
    by (simp add: keydown_Control viewportMouseDown_def windowMouseUp_def selectUp_def
        groupSelect_defs renderedAB_def initial_def leftButtonAt_def scheduleSave_def)
  have b: "keydown (pressAltKey ''c'') True uuidU ?boxed = ?copied"
    by (simp add: keydown_copy copyNodes_def initial_def set_size_def set_has_def deepCopy_def
        node_defs)
  have c: "keydown (pressAltKey ''v'') True uuidU ?copied
      = ?copied\<lparr>nodes := [nodeA, nodeB, nodeA\<lparr>n_id := ''u'', n_x := 140, n_y := 140\<rparr>,
                nodeB\<lparr>n_id := ''uu'', n_x := 640, n_y := 140\<rparr>],
          focusedId := Some ''u'', selectedIds := [''u'', ''uu'']\<rparr>"
    by (simp add: keydown_paste [where c = "Multi [nodeA, nodeB]"] pressAltKey_def
        lower_literals pasteNodes_eq clipNodes_def cloneAll_def cloneNode_def deepCopy_def
        uuidU_def set_add_def initial_def node_defs Let_def)
  have "pairPasted = keyup (pressKey ''Control'') (keyup (pressKey ''Alt'')
      (keydown (pressAltKey ''v'') True uuidU (keydown (pressAltKey ''c'') True uuidU
        (keydown (pressAltKey ''Alt'') True uuidU
          (selectUp (leftButtonAt 900 900) renderedAB
            (windowMouseUp (viewportMouseDown (leftButtonAt 50 100)
              (keydown (pressKey ''Control'') True uuidU
                (initial\<lparr>nodes := [nodeA, nodeB]\<rparr>)))))))))"
    by (simp add: pairPasted_def run_def storedDoc_loaded)
  also have "\<dots> = keyup (pressKey ''Control'') (keyup (pressKey ''Alt'')
      (?copied\<lparr>nodes := [nodeA, nodeB, nodeA\<lparr>n_id := ''u'', n_x := 140, n_y := 140\<rparr>,
                nodeB\<lparr>n_id := ''uu'', n_x := 640, n_y := 140\<rparr>],
          focusedId := Some ''u'', selectedIds := [''u'', ''uu'']\<rparr>))"
    by (simp only: a keydown_Alt b c)
  also have "\<dots> = initial\<lparr>
      nodes := [nodeA, nodeB, nodeA\<lparr>n_id := ''u'', n_x := 140, n_y := 140\<rparr>,
                nodeB\<lparr>n_id := ''uu'', n_x := 640, n_y := 140\<rparr>],
      focusedId := Some ''u'', selectedIds := [''u'', ''uu''],
      clipboard := Some (Multi [nodeA, nodeB]), selectStart := Some (50, 100),
      isDirty := True\<rparr>"
    by (simp add: keyup_def pressKey_def initial_def)
  finally show ?thesis .
qed

lemma pairPasted_eval:
  "focusedId pairPasted = Some ''u'' \<and> selectedIds pairPasted = [''u'', ''uu'']
   \<and> \<not> ctrlDown pairPasted \<and> interactionMode pairPasted = Normal
   \<and> \<not> shiftDown pairPasted"
  by (simp add: pairPasted_eq initial_def)


lemma finish_andThen:
  "finish (andThen m f) = (case m of Return s \<Rightarrow> s | Continue s \<Rightarrow> finish (f s))"
  by (cases m) simp_all


lemma copyNodes_focus: "focusedId (copyNodes s) = focusedId s"
  by (simp add: copyNodes_def Let_def split: option.splits)














text \<open>
  The override at the head of the node's \<^verbatim>\<open>mousedown\<close> listener runs ahead of every
  guard of the listener, so a press on a member of a multi-node selection clears the
  focus also where it starts no move. With Ctrl held the press then takes the node out
  of the selection, in the branch that the source comments as
  \<^verbatim>\<open>CTRL+CLICK toggles selection (no focus change)\<close>.
\<close>

lemma ctrl_press_clears_focus:
  "focusedId (step (NodeMouseDown ''uu'' (leftButtonAt 820 320))
      (step (KeyDown (pressKey ''Control'') True uuidU) pairPasted)) = None
   \<and> selectedIds (step (NodeMouseDown ''uu'' (leftButtonAt 820 320))
      (step (KeyDown (pressKey ''Control'') True uuidU) pairPasted)) = [''u'']"
  by (simp add: keydown_Control nodeMouseDown_def pairPasted_eval set_size_def set_has_def
      set_delete_def truthy_def leftButtonAt_def Let_def)




subsection \<open>Focus and the node list\<close>

text \<open>Delete, import and clear-all unset the focus and empty the selection.\<close>

lemma removals_that_unset_focus:
  "idsToDelete s = Some ids \<Longrightarrow>
     focusedId (keydown (pressKey ''Delete'') True u s) = None
     \<and> selectedIds (keydown (pressKey ''Delete'') True u s) = []"
  "focusedId (importState (ParsedDoc d) s) = None
     \<and> selectedIds (importState (ParsedDoc d) s) = []"
  "focusedId (clearAll True s) = None \<and> selectedIds (clearAll True s) = []"
  by (simp_all add: keydown_Delete importState_def clearAll_def scheduleSave_def assignDoc_def)

text \<open>
  C8 (the code departs from the claim). The redo of a deletion removes the batch's nodes
  and leaves \<^verbatim>\<open>focusedId\<close> and \<^verbatim>\<open>selectedIds\<close> alone. After: press A, Delete,
  Ctrl+Z, press A, Ctrl+Y, the node list holds B only, while A is still focused and
  selected.
\<close>

theorem redo_leaves_stale_focus:
  "focusedId (run (Some (ParsedDoc storedDoc)) redoTrace) = Some ''A''
   \<and> selectedIds (run (Some (ParsedDoc storedDoc)) redoTrace) = [''A'']
   \<and> map n_id (nodes (run (Some (ParsedDoc storedDoc)) redoTrace)) = [''B'']
   \<and> findNode ''A'' (nodes (run (Some (ParsedDoc storedDoc)) redoTrace)) = None"
  by (simp add: redoTrace_def handler_defs key_defs lower_literals node_defs)

subsection \<open>The clipboard in the store\<close>

lemma validRef_D:
  assumes "validRef st a"
  obtains n d where "heap st a = Some (NodeObj n)" "heap st (o_data n) = Some (DataObj d)"
    "a < next_addr st" "o_data n < next_addr st"
  using assms
  by (auto simp: validRef_def readNode_def readData_def split: option.splits obj.splits)

lemma validRef_I:
  assumes "heap st a = Some (NodeObj n)" "heap st (o_data n) = Some (DataObj d)"
    "a < next_addr st" "o_data n < next_addr st"
  shows "validRef st a"
  using assms by (simp add: validRef_def readNode_def readData_def)

lemma heap_agree:
  assumes v: "validRef st a"
    and le: "next_addr st \<le> next_addr st'"
    and ag: "\<And>b. b < next_addr st \<Longrightarrow> heap st' b = heap st b"
  shows "nodeValue st' a = nodeValue st a \<and> validRef st' a \<and> dataRef st' a = dataRef st a"
proof -
  from v obtain n d where h: "heap st a = Some (NodeObj n)" "heap st (o_data n) = Some (DataObj d)"
    "a < next_addr st" "o_data n < next_addr st" by (rule validRef_D)
  have "heap st' a = Some (NodeObj n)" "heap st' (o_data n) = Some (DataObj d)"
    using h ag by simp_all
  then show ?thesis using h le
    by (simp add: nodeValue_def readNode_def readData_def validRef_def dataRef_def)
qed

lemma sameOn_agree:
  assumes "list_all (validRef st) L" "next_addr st \<le> next_addr st'"
    "\<And>b. b < next_addr st \<Longrightarrow> heap st' b = heap st b"
  shows "sameOn st st' L"
  unfolding sameOn_def list_all_iff
proof
  fix a assume "a \<in> set L"
  then have "validRef st a" using assms(1) by (simp add: list_all_iff)
  then show "nodeValue st' a = nodeValue st a \<and> validRef st' a \<and> dataRef st' a = dataRef st a"
    using assms(2,3) by (rule heap_agree)
qed

lemma sameOn_refl: "list_all (validRef st) L \<Longrightarrow> sameOn st st L"
  by (simp add: sameOn_def list_all_iff)

lemma sameOn_trans: "sameOn st st1 L \<Longrightarrow> sameOn st1 st2 L \<Longrightarrow> sameOn st st2 L"
  by (simp add: sameOn_def list_all_iff)

lemma sameOn_subset: "sameOn st st' L \<Longrightarrow> set K \<subseteq> set L \<Longrightarrow> sameOn st st' K"
  by (auto simp: sameOn_def list_all_iff)

lemma sameOn_values: "sameOn st st' L \<Longrightarrow> map (nodeValue st') L = map (nodeValue st) L"
  by (simp add: sameOn_def list_all_iff)

lemma sameOn_dataRefs: "sameOn st st' L \<Longrightarrow> map (dataRef st') L = map (dataRef st) L"
  by (simp add: sameOn_def list_all_iff)

lemma sameOn_valid: "sameOn st st' L \<Longrightarrow> list_all (validRef st') L"
  by (simp add: sameOn_def list_all_iff)

lemma noSharing_sameOn: "noSharing st L \<Longrightarrow> sameOn st st' L \<Longrightarrow> noSharing st' L"
  by (simp add: noSharing_def sameOn_valid sameOn_dataRefs)

lemma deepCopyRef_ok:
  assumes L: "list_all (validRef st) L" and a: "validRef st a"
  shows "\<exists>c st'. deepCopyRef a st = Some (c, st') \<and> sameOn st st' L \<and> validRef st' c
     \<and> nodeValue st' c = nodeValue st a \<and> c \<notin> set L
     \<and> dataRef st' c \<notin> set (map (dataRef st) L)"
proof -
  from a obtain n d where h: "heap st a = Some (NodeObj n)" "heap st (o_data n) = Some (DataObj d)"
    "a < next_addr st" "o_data n < next_addr st" by (rule validRef_D)
  let ?v = "\<lparr>n_id = o_id n, n_type = o_type n, n_x = o_x n, n_y = o_y n,
                     n_w = o_w n, n_h = o_h n, n_data = d\<rparr>"
  have nv: "nodeValue st a = Some ?v"
    using h by (simp add: nodeValue_def readNode_def readData_def)
  let ?N = "next_addr st"
  let ?o = "\<lparr>o_id = o_id n, o_type = o_type n, o_x = o_x n, o_y = o_y n,
                     o_w = o_w n, o_h = o_h n, o_data = ?N\<rparr>"
  let ?st' = "st\<lparr>heap := (heap st)(?N \<mapsto> DataObj d, Suc ?N \<mapsto> NodeObj ?o),
                 next_addr := Suc (Suc ?N)\<rparr>"
  have dc: "deepCopyRef a st = Some (Suc ?N, ?st')"
    by (simp add: deepCopyRef_def nv alloc_def)
  have same: "sameOn st ?st' L"
    by (rule sameOn_agree [OF L]) simp_all
  have vc: "validRef ?st' (Suc ?N)"
    by (simp add: validRef_def readNode_def readData_def)
  have nvc: "nodeValue ?st' (Suc ?N) = nodeValue st a"
    unfolding nv by (simp add: nodeValue_def readNode_def readData_def)
  have fresh: "Suc ?N \<notin> set L"
  proof
    assume "Suc ?N \<in> set L"
    then have "validRef st (Suc ?N)" using L by (simp add: list_all_iff)
    then show False by (auto elim: validRef_D)
  qed
  have dr: "dataRef ?st' (Suc ?N) = Some ?N"
    by (simp add: dataRef_def readNode_def)
  have dfresh: "Some ?N \<notin> set (map (dataRef st) L)"
  proof
    assume "Some ?N \<in> set (map (dataRef st) L)"
    then obtain b where b: "b \<in> set L" "dataRef st b = Some ?N" by auto
    then have "validRef st b" using L by (simp add: list_all_iff)
    then obtain nb db where "heap st b = Some (NodeObj nb)"
        "heap st (o_data nb) = Some (DataObj db)" "o_data nb < next_addr st"
      by (rule validRef_D)
    with b(2) show False by (simp add: dataRef_def readNode_def)
  qed
  have dfresh': "dataRef ?st' (Suc ?N) \<notin> set (map (dataRef st) L)"
    unfolding dr by (rule dfresh)
  from dc same vc nvc fresh dfresh' show ?thesis by blast
qed


lemma updNode_ok:
  assumes L: "list_all (validRef st) L" and c: "validRef st c"
    and f: "\<And>n. o_data (f n) = o_data n"
  shows "sameOn st (updNode c f st) (removeAll c L) \<and> validRef (updNode c f st) c
     \<and> dataRef (updNode c f st) c = dataRef st c"
proof -
  from c obtain n d where h: "heap st c = Some (NodeObj n)" "heap st (o_data n) = Some (DataObj d)"
    "c < next_addr st" "o_data n < next_addr st" by (rule validRef_D)
  have u: "updNode c f st = st\<lparr>heap := (heap st)(c \<mapsto> NodeObj (f n))\<rparr>"
    using h by (simp add: updNode_def readNode_def)
  have ne: "o_data n \<noteq> c" using h by auto
  have same: "sameOn st (updNode c f st) (removeAll c L)"
    unfolding sameOn_def list_all_iff
  proof
    fix a assume "a \<in> set (removeAll c L)"
    then have ac: "a \<noteq> c" and "a \<in> set L" by auto
    then have "validRef st a" using L by (simp add: list_all_iff)
    then obtain na da where ha: "heap st a = Some (NodeObj na)"
        "heap st (o_data na) = Some (DataObj da)" "a < next_addr st" "o_data na < next_addr st"
      by (rule validRef_D)
    have "o_data na \<noteq> c" using ha h by auto
    then show "nodeValue (updNode c f st) a = nodeValue st a \<and> validRef (updNode c f st) a
        \<and> dataRef (updNode c f st) a = dataRef st a"
      using ha ac unfolding u
      by (simp add: nodeValue_def readNode_def readData_def validRef_def dataRef_def)
  qed
  have "validRef (updNode c f st) c \<and> dataRef (updNode c f st) c = dataRef st c"
    unfolding u using h ne f
    by (simp add: validRef_def readNode_def readData_def dataRef_def)
  with same show ?thesis by simp
qed

lemma updNode_value:
  assumes c: "validRef st c"
  shows "nodeValue (updNode c (\<lambda>n. n\<lparr>o_id := u\<rparr>) st) c
           = map_option (\<lambda>v. v\<lparr>n_id := u\<rparr>) (nodeValue st c)"
    and "nodeValue (updNode c (\<lambda>n. n\<lparr>o_x := o_x n + k\<rparr>) st) c
           = map_option (\<lambda>v. v\<lparr>n_x := n_x v + k\<rparr>) (nodeValue st c)"
    and "nodeValue (updNode c (\<lambda>n. n\<lparr>o_y := o_y n + k\<rparr>) st) c
           = map_option (\<lambda>v. v\<lparr>n_y := n_y v + k\<rparr>) (nodeValue st c)"
proof -
  from c obtain n d where h: "heap st c = Some (NodeObj n)" "heap st (o_data n) = Some (DataObj d)"
    by (rule validRef_D)
  have ne: "o_data n \<noteq> c" using h by auto
  show "nodeValue (updNode c (\<lambda>n. n\<lparr>o_id := u\<rparr>) st) c
           = map_option (\<lambda>v. v\<lparr>n_id := u\<rparr>) (nodeValue st c)"
    using h ne by (simp add: updNode_def nodeValue_def readNode_def readData_def)
  show "nodeValue (updNode c (\<lambda>n. n\<lparr>o_x := o_x n + k\<rparr>) st) c
           = map_option (\<lambda>v. v\<lparr>n_x := n_x v + k\<rparr>) (nodeValue st c)"
    using h ne by (simp add: updNode_def nodeValue_def readNode_def readData_def)
  show "nodeValue (updNode c (\<lambda>n. n\<lparr>o_y := o_y n + k\<rparr>) st) c
           = map_option (\<lambda>v. v\<lparr>n_y := n_y v + k\<rparr>) (nodeValue st c)"
    using h ne by (simp add: updNode_def nodeValue_def readNode_def readData_def)
qed

lemma sameOn_removeAll_fresh: "c \<notin> set L \<Longrightarrow> removeAll c L = L"
  by simp

lemma cloneRef_ok:
  assumes L: "list_all (validRef st) L" and a: "validRef st a"
  shows "\<exists>c st'. cloneRef u a st = Some (c, st') \<and> sameOn st st' L \<and> validRef st' c
     \<and> nodeValue st' c = map_option (cloneNode u) (nodeValue st a) \<and> c \<notin> set L
     \<and> dataRef st' c \<notin> set (map (dataRef st) L)"
proof -
  from deepCopyRef_ok [OF L a] obtain c st1 where
    d: "deepCopyRef a st = Some (c, st1)" "sameOn st st1 L" "validRef st1 c"
       "nodeValue st1 c = nodeValue st a" "c \<notin> set L"
       "dataRef st1 c \<notin> set (map (dataRef st) L)"
    by blast
  define st2 where "st2 = updNode c (\<lambda>n. n\<lparr>o_id := u\<rparr>) st1"
  define st3 where "st3 = updNode c (\<lambda>n. n\<lparr>o_x := o_x n + 40\<rparr>) st2"
  define st4 where "st4 = updNode c (\<lambda>n. n\<lparr>o_y := o_y n + 40\<rparr>) st3"
  have L1: "list_all (validRef st1) L" using d(2) by (rule sameOn_valid)
  have s2: "sameOn st1 st2 L" "validRef st2 c" "dataRef st2 c = dataRef st1 c"
    using updNode_ok [OF L1 d(3), of "\<lambda>n. n\<lparr>o_id := u\<rparr>"] d(5)
    by (simp_all add: st2_def)
  have L2: "list_all (validRef st2) L" using s2(1) by (rule sameOn_valid)
  have s3: "sameOn st2 st3 L" "validRef st3 c" "dataRef st3 c = dataRef st2 c"
    using updNode_ok [OF L2 s2(2), of "\<lambda>n. n\<lparr>o_x := o_x n + 40\<rparr>"] d(5)
    by (simp_all add: st3_def)
  have L3: "list_all (validRef st3) L" using s3(1) by (rule sameOn_valid)
  have s4: "sameOn st3 st4 L" "validRef st4 c" "dataRef st4 c = dataRef st3 c"
    using updNode_ok [OF L3 s3(2), of "\<lambda>n. n\<lparr>o_y := o_y n + 40\<rparr>"] d(5)
    by (simp_all add: st4_def)
  have cr: "cloneRef u a st = Some (c, st4)"
    by (simp add: cloneRef_def d(1) Let_def st2_def st3_def st4_def)
  have same: "sameOn st st4 L"
    using d(2) s2(1) s3(1) s4(1) by (blast intro: sameOn_trans)
  have v2: "nodeValue st2 c = map_option (\<lambda>v. v\<lparr>n_id := u\<rparr>) (nodeValue st1 c)"
    unfolding st2_def by (rule updNode_value(1) [OF d(3)])
  have v3: "nodeValue st3 c = map_option (\<lambda>v. v\<lparr>n_x := n_x v + 40\<rparr>) (nodeValue st2 c)"
    unfolding st3_def by (rule updNode_value(2) [OF s2(2)])
  have v4: "nodeValue st4 c = map_option (\<lambda>v. v\<lparr>n_y := n_y v + 40\<rparr>) (nodeValue st3 c)"
    unfolding st4_def by (rule updNode_value(3) [OF s3(2)])
  have val: "nodeValue st4 c = map_option (cloneNode u) (nodeValue st a)"
    unfolding v4 v3 v2 d(4)
    by (cases "nodeValue st a") (simp_all add: cloneNode_def deepCopy_def Let_def)
  have dr: "dataRef st4 c \<notin> set (map (dataRef st) L)"
    using s2(3) s3(3) s4(3) d(6) by simp
  from cr same s4(2) val d(5) dr show ?thesis by blast
qed


lemma noSharing_snoc:
  assumes "noSharing st L" "sameOn st st' L" "validRef st' c" "c \<notin> set L"
    "dataRef st' c \<notin> set (map (dataRef st) L)"
  shows "noSharing st' (L @ [c])"
proof -
  have e: "map (dataRef st') L = map (dataRef st) L"
    using assms(2) by (rule sameOn_dataRefs)
  have v: "list_all (validRef st') L"
    using assms(2) by (rule sameOn_valid)
  have d: "distinct L" "distinct (map (dataRef st) L)"
    using assms(1) by (simp_all add: noSharing_def)
  have "distinct (map (dataRef st') (L @ [c]))"
    using d(2) assms(5) by (simp add: e)
  then show ?thesis
    using v d(1) assms(3,4) by (simp add: noSharing_def)
qed

lemma sameOn_snoc:
  "sameOn st st' (L @ [c]) \<longleftrightarrow> sameOn st st' L \<and> sameOn st st' [c]"
  by (auto simp: sameOn_def)

lemma cloneRefs_ok:
  assumes "noSharing st L" and "set as \<subseteq> set L"
  shows "\<exists>cs st'. cloneRefs uuid k as st = Some (cs, st') \<and> sameOn st st' L
     \<and> noSharing st' (L @ cs)
     \<and> map (nodeValue st') cs
         = map (\<lambda>(j, a). map_option (cloneNode (uuid j)) (nodeValue st a))
             (zip [k..<k + length as] as)"
  using assms
proof (induction as arbitrary: st L k)
  case Nil
  then show ?case by (simp add: sameOn_refl noSharing_def)
next
  case (Cons a as)
  have L: "list_all (validRef st) L" using Cons.prems(1) by (simp add: noSharing_def)
  have a: "validRef st a" using L Cons.prems(2) by (simp add: list_all_iff)
  from cloneRef_ok [OF L a, of "uuid k"] obtain c st1 where
    c: "cloneRef (uuid k) a st = Some (c, st1)" "sameOn st st1 L" "validRef st1 c"
       "nodeValue st1 c = map_option (cloneNode (uuid k)) (nodeValue st a)" "c \<notin> set L"
       "dataRef st1 c \<notin> set (map (dataRef st) L)"
    by blast
  have ns1: "noSharing st1 (L @ [c])"
    using Cons.prems(1) c(2,3,5,6) by (rule noSharing_snoc)
  have sub: "set as \<subseteq> set (L @ [c])" using Cons.prems(2) by auto
  from Cons.IH [OF ns1 sub, of "Suc k"] obtain cs st2 where
    r: "cloneRefs uuid (Suc k) as st1 = Some (cs, st2)" "sameOn st1 st2 (L @ [c])"
       "noSharing st2 ((L @ [c]) @ cs)"
       "map (nodeValue st2) cs
         = map (\<lambda>(j, a). map_option (cloneNode (uuid j)) (nodeValue st1 a))
             (zip [Suc k..<Suc k + length as] as)"
    by blast
  have s12: "sameOn st1 st2 L" "nodeValue st2 c = nodeValue st1 c"
    using r(2) by (simp_all add: sameOn_def)
  have same: "sameOn st st2 L" using c(2) s12(1) by (rule sameOn_trans)
  have old: "\<And>b. b \<in> set as \<Longrightarrow> nodeValue st1 b = nodeValue st b"
    using c(2) Cons.prems(2) by (auto simp: sameOn_def list_all_iff)
  have tl: "map (\<lambda>(j, a). map_option (cloneNode (uuid j)) (nodeValue st1 a))
             (zip [Suc k..<Suc k + length as] as)
        = map (\<lambda>(j, a). map_option (cloneNode (uuid j)) (nodeValue st a))
             (zip [Suc k..<Suc k + length as] as)"
    by (rule map_cong) (auto dest: set_zip_rightD simp: old)
  have up: "[k..<k + length (a # as)] = k # [Suc k..<Suc k + length as]"
    using upt_conv_Cons [of k "Suc k + length as"] by simp
  have "cloneRefs uuid k (a # as) st = Some (c # cs, st2)"
    by (simp add: c(1) r(1))
  moreover have "noSharing st2 (L @ c # cs)" using r(3) by simp
  moreover have "map (nodeValue st2) (c # cs)
         = map (\<lambda>(j, a). map_option (cloneNode (uuid j)) (nodeValue st a))
             (zip [k..<k + length (a # as)] (a # as))"
    unfolding up using s12(2) c(4) r(4) tl by simp
  ultimately show ?case using same by blast
qed

lemma cloneRefs_length:
  "cloneRefs uuid k as st = Some (cs, st') \<Longrightarrow> length cs = length as"
  by (induction as arbitrary: st k cs) (auto split: option.splits)

lemma cloneRefs_single:
  "cloneRefs uuid 0 [a] st
     = (case cloneRef (uuid 0) a st of None \<Rightarrow> None | Some (c, st1) \<Rightarrow> Some ([c], st1))"
  by (simp split: option.splits)

lemma mutate_ok:
  assumes ns: "noSharing st L" and b: "b \<in> set L"
  shows "sameOn st (mutate b m st) (removeAll b L) \<and> validRef (mutate b m st) b
     \<and> dataRef (mutate b m st) b = dataRef st b"
proof -
  have L: "list_all (validRef st) L" using ns by (simp add: noSharing_def)
  have vb: "validRef st b" using L b by (simp add: list_all_iff)
  show ?thesis
  proof (cases m)
    case (SetData k v)
    from vb obtain n d where h: "heap st b = Some (NodeObj n)"
        "heap st (o_data n) = Some (DataObj d)" "b < next_addr st" "o_data n < next_addr st"
      by (rule validRef_D)
    have u: "mutate b m st = st\<lparr>heap := (heap st)(o_data n \<mapsto> DataObj (setKey k v d))\<rparr>"
      using h SetData by (simp add: readNode_def readData_def)
    have ne: "o_data n \<noteq> b" using h by auto
    have same: "sameOn st (mutate b m st) (removeAll b L)"
      unfolding sameOn_def list_all_iff
    proof
      fix a assume "a \<in> set (removeAll b L)"
      then have ab: "a \<noteq> b" and aL: "a \<in> set L" by auto
      then have "validRef st a" using L by (simp add: list_all_iff)
      then obtain na da where ha: "heap st a = Some (NodeObj na)"
          "heap st (o_data na) = Some (DataObj da)" "a < next_addr st" "o_data na < next_addr st"
        by (rule validRef_D)
      have 1: "a \<noteq> o_data n" using ha h by auto
      have "dataRef st a \<noteq> dataRef st b"
        using ns ab aL b by (auto simp: noSharing_def distinct_map inj_on_def)
      then have 2: "o_data na \<noteq> o_data n"
        using ha h by (simp add: dataRef_def readNode_def)
      show "nodeValue (mutate b m st) a = nodeValue st a \<and> validRef (mutate b m st) a
          \<and> dataRef (mutate b m st) a = dataRef st a"
        using ha 1 2 unfolding u
        by (simp add: nodeValue_def readNode_def readData_def validRef_def dataRef_def)
    qed
    have "validRef (mutate b m st) b \<and> dataRef (mutate b m st) b = dataRef st b"
      unfolding u using h ne
      by (simp add: validRef_def readNode_def readData_def dataRef_def)
    with same show ?thesis by simp
  qed (use updNode_ok [OF L vb] in simp_all)
qed

lemma noSharing_perm:
  "noSharing st (xs @ ys @ zs) \<longleftrightarrow> noSharing st (xs @ zs @ ys)"
  by (auto simp: noSharing_def)

lemma valid_values:
  "list_all (validRef st) L \<Longrightarrow> \<exists>vs. map (nodeValue st) L = map Some vs"
proof (induction L)
  case Nil
  then show ?case by simp
next
  case (Cons a L)
  then obtain vs where vs: "map (nodeValue st) L = map Some vs" by auto
  from Cons.prems have "validRef st a" by simp
  then obtain n d where "heap st a = Some (NodeObj n)" "heap st (o_data n) = Some (DataObj d)"
    by (rule validRef_D)
  then obtain v where "nodeValue st a = Some v"
    by (simp add: nodeValue_def readNode_def readData_def)
  with vs have "map (nodeValue st) (a # L) = map Some (v # vs)" by simp
  then show ?case by blast
qed

lemma clone_values:
  assumes "map (nodeValue st) as = map Some vs"
  shows "map (\<lambda>(j, a). map_option (cloneNode (uuid j)) (nodeValue st a))
             (zip [0..<0 + length as] as) = map Some (cloneAll uuid vs)"
proof -
  have len: "length vs = length as" using assms by (metis length_map)
  have nth: "\<And>i. i < length as \<Longrightarrow> nodeValue st (as ! i) = Some (vs ! i)"
    using assms len by (metis nth_map)
  show ?thesis
    by (rule nth_equalityI) (simp_all add: len cloneAll_def nth)
qed

text \<open>One paste, on a separated state.\<close>

lemma pasteRefs_ok:
  assumes sep: "separated hs"
  shows "\<exists>hs' cs vs. pasteRefs uuid hs = Some hs' \<and> separated hs'
     \<and> h_clipboard hs' = h_clipboard hs
     \<and> sameOn (h_store hs) (h_store hs') (liveRefs hs)
     \<and> h_nodes hs' = h_nodes hs @ cs
     \<and> clipValue hs = map Some vs
     \<and> map (nodeValue (h_store hs')) cs = map Some (cloneAll uuid vs)"
proof -
  let ?st = "h_store hs"
  let ?L = "liveRefs hs"
  let ?as = "clipRefs (h_clipboard hs)"
  have ns: "noSharing ?st ?L" using sep by (simp add: separated_def)
  have sub: "set ?as \<subseteq> set ?L" by (simp add: liveRefs_def)
  have vL: "list_all (validRef ?st) ?as"
    using ns by (simp add: noSharing_def liveRefs_def)
  from valid_values [OF vL] obtain vs where vs: "map (nodeValue ?st) ?as = map Some vs" ..
  from cloneRefs_ok [OF ns sub, of uuid 0] obtain cs st' where
    r: "cloneRefs uuid 0 ?as ?st = Some (cs, st')" "sameOn ?st st' ?L"
       "noSharing st' (?L @ cs)"
       "map (nodeValue st') cs
         = map (\<lambda>(j, a). map_option (cloneNode (uuid j)) (nodeValue ?st a))
             (zip [0..<0 + length ?as] ?as)"
    by blast
  have vals: "map (nodeValue st') cs = map Some (cloneAll uuid vs)"
    unfolding r(4) using vs by (rule clone_values)
  have ns': "noSharing st' (h_nodes hs @ cs @ ?as)"
    using r(3) noSharing_perm [of st' "h_nodes hs" cs ?as] by (simp add: liveRefs_def)
  have len: "length cs = length ?as" using r(1) by (rule cloneRefs_length)
  show ?thesis
  proof (cases "h_clipboard hs")
    case None
    then have "cs = []" using len by (simp add: clipRefs_def)
    moreover have "vs = []" using vs None by (simp add: clipRefs_def)
    moreover have "pasteRefs uuid hs = Some hs" using None by (simp add: pasteRefs_def)
    moreover have "sameOn ?st ?st ?L" using ns by (simp add: sameOn_refl noSharing_def)
    ultimately show ?thesis using sep None
      by (intro exI [of _ hs] exI [of _ "[]"]) (simp add: clipValue_def clipRefs_def cloneAll_def)
  next
    case (Some c)
    show ?thesis
    proof (cases c)
      case (RSingle a)
      then have as: "?as = [a]" using Some by (simp add: clipRefs_def)
      from r(1) obtain c1 where c1: "cloneRef (uuid 0) a ?st = Some (c1, st')" "cs = [c1]"
        unfolding as cloneRefs_single by (auto split: option.splits)
      let ?hs' = "hs\<lparr>h_store := st', h_nodes := h_nodes hs @ [c1],
                        h_focusedId := Some (uuid 0),
                        h_selectedIds := set_add (uuid 0) []\<rparr>"
      have p: "pasteRefs uuid hs = Some ?hs'"
        using Some RSingle c1 by (simp add: pasteRefs_def)
      have "separated ?hs'"
        using ns' c1(2) Some by (simp add: separated_def liveRefs_def)
      then show ?thesis
        using p r(2) vals vs c1(2)
        by (intro exI [of _ ?hs'] exI [of _ cs] exI [of _ vs]) (simp add: clipValue_def)
    next
      case (RMulti as)
      then have as: "?as = as" using Some by (simp add: clipRefs_def)
      obtain hs' where p: "pasteRefs uuid hs = Some hs'" and
        f: "h_store hs' = st'" "h_nodes hs' = h_nodes hs @ cs" "h_clipboard hs' = h_clipboard hs"
        using Some RMulti r(1) unfolding as
        by (cases "length cs > 0") (simp_all add: pasteRefs_def Let_def)
      have "separated hs'"
        using ns' f by (simp add: separated_def liveRefs_def)
      then show ?thesis
        using p r(2) vals vs f
        by (intro exI [of _ hs'] exI [of _ cs] exI [of _ vs]) (simp add: clipValue_def)
    qed
  qed
qed

lemma mutateNode_ok:
  assumes sep: "separated hs" and b: "b \<in> set (h_nodes hs)"
  shows "separated (mutateNode b m hs)
     \<and> h_clipboard (mutateNode b m hs) = h_clipboard hs
     \<and> h_nodes (mutateNode b m hs) = h_nodes hs
     \<and> sameOn (h_store hs) (h_store (mutateNode b m hs)) (removeAll b (liveRefs hs))
     \<and> clipValue (mutateNode b m hs) = clipValue hs"
proof -
  let ?st = "h_store hs"
  let ?st' = "mutate b m ?st"
  let ?L = "liveRefs hs"
  have ns: "noSharing ?st ?L" using sep by (simp add: separated_def)
  have bL: "b \<in> set ?L" using b by (simp add: liveRefs_def)
  from mutate_ok [OF ns bL, of m] have
    m: "sameOn ?st ?st' (removeAll b ?L)" "validRef ?st' b" "dataRef ?st' b = dataRef ?st b"
    by simp_all
  have all: "\<And>a. a \<in> set ?L \<Longrightarrow> validRef ?st' a \<and> dataRef ?st' a = dataRef ?st a"
    using m by (auto simp: sameOn_def list_all_iff)
  have e: "map (dataRef ?st') ?L = map (dataRef ?st) ?L"
    by (rule map_cong) (simp_all add: all)
  have "noSharing ?st' ?L"
    using ns all unfolding noSharing_def e by (simp add: list_all_iff)
  then have s': "separated (mutateNode b m hs)"
    by (simp add: separated_def mutateNode_def liveRefs_def)
  have "b \<notin> set (clipRefs (h_clipboard hs))"
    using ns b by (auto simp: noSharing_def liveRefs_def)
  then have "set (clipRefs (h_clipboard hs)) \<subseteq> set (removeAll b ?L)"
    by (auto simp: liveRefs_def)
  with m(1) have "sameOn ?st ?st' (clipRefs (h_clipboard hs))" by (rule sameOn_subset)
  then have cv: "clipValue (mutateNode b m hs) = clipValue hs"
    by (simp add: clipValue_def mutateNode_def sameOn_values)
  show ?thesis using s' m(1) cv by (simp add: mutateNode_def)
qed

lemma pasteTimes_ok:
  assumes "separated hs"
  shows "\<exists>hs1 ps. pasteTimes us hs = Some hs1 \<and> separated hs1
     \<and> h_clipboard hs1 = h_clipboard hs
     \<and> sameOn (h_store hs) (h_store hs1) (liveRefs hs)
     \<and> h_nodes hs1 = h_nodes hs @ ps"
  using assms
proof (induction us arbitrary: hs)
  case Nil
  then show ?case by (simp add: sameOn_refl separated_def noSharing_def)
next
  case (Cons u us)
  from pasteRefs_ok [OF Cons.prems, of u] obtain hs' cs where
    p: "pasteRefs u hs = Some hs'" "separated hs'" "h_clipboard hs' = h_clipboard hs"
       "sameOn (h_store hs) (h_store hs') (liveRefs hs)" "h_nodes hs' = h_nodes hs @ cs"
    by blast
  from Cons.IH [OF p(2)] obtain hs1 ps where
    r: "pasteTimes us hs' = Some hs1" "separated hs1" "h_clipboard hs1 = h_clipboard hs'"
       "sameOn (h_store hs') (h_store hs1) (liveRefs hs')" "h_nodes hs1 = h_nodes hs' @ ps"
    by blast
  have "set (liveRefs hs) \<subseteq> set (liveRefs hs')"
    using p(3,5) by (auto simp: liveRefs_def)
  with r(4) have "sameOn (h_store hs') (h_store hs1) (liveRefs hs)" by (rule sameOn_subset)
  with p(4) have "sameOn (h_store hs) (h_store hs1) (liveRefs hs)" by (rule sameOn_trans)
  moreover have "pasteTimes (u # us) hs = Some hs1" using p(1) r(1) by simp
  moreover have "h_nodes hs1 = h_nodes hs @ (cs @ ps)" using p(5) r(5) by simp
  ultimately show ?case using r(2,3) p(3) by (intro exI conjI) simp_all
qed

lemma sameOn_clipValue:
  assumes "sameOn (h_store hs) (h_store hs') (liveRefs hs)" "h_clipboard hs' = h_clipboard hs"
  shows "clipValue hs' = clipValue hs"
proof -
  have "sameOn (h_store hs) (h_store hs') (clipRefs (h_clipboard hs))"
    using assms(1) by (rule sameOn_subset) (simp add: liveRefs_def)
  then show ?thesis using assms(2) by (simp add: clipValue_def sameOn_values)
qed

lemma sameOn_nodes:
  assumes "sameOn (h_store hs) st' (liveRefs hs)"
  shows "map (nodeValue st') (h_nodes hs) = map (nodeValue (h_store hs)) (h_nodes hs)"
proof -
  have "sameOn (h_store hs) st' (h_nodes hs)"
    using assms by (rule sameOn_subset) (simp add: liveRefs_def)
  then show ?thesis by (rule sameOn_values)
qed

text \<open>
  C10. On a state whose objects are separated (as every copy leaves it), any number of
  pastes succeeds and leaves the clipboard's references and what they hold exactly as
  they were; one more paste, after however many, appends clones whose values are the
  clipboard's values with the generated ids and x and y increased by 40 once (the offset
  does not accumulate); and any write of a handler to a pasted node (position, size or a
  data field) leaves the clipboard and every other node of the list, the copied original
  among them, as they were.
\<close>

theorem paste_never_mutates_clipboard:
  assumes "separated hs"
  shows "\<exists>hs1 hs2 ps cs vs.
      pasteTimes us hs = Some hs1 \<and> pasteRefs u hs1 = Some hs2
      \<and> h_nodes hs1 = h_nodes hs @ ps
      \<and> map (nodeValue (h_store hs1)) (h_nodes hs) = map (nodeValue (h_store hs)) (h_nodes hs)
      \<and> separated hs1 \<and> separated hs2
      \<and> h_clipboard hs1 = h_clipboard hs \<and> h_clipboard hs2 = h_clipboard hs
      \<and> clipValue hs1 = clipValue hs \<and> clipValue hs2 = clipValue hs
      \<and> clipValue hs = map Some vs
      \<and> h_nodes hs2 = h_nodes hs1 @ cs
      \<and> map (nodeValue (h_store hs2)) cs = map Some (cloneAll u vs)
      \<and> map (nodeValue (h_store hs2)) (h_nodes hs) = map (nodeValue (h_store hs)) (h_nodes hs)
      \<and> (\<forall>b \<in> set cs. \<forall>m.
            separated (mutateNode b m hs2)
            \<and> clipValue (mutateNode b m hs2) = clipValue hs
            \<and> map (nodeValue (h_store (mutateNode b m hs2))) (h_nodes hs1)
                = map (nodeValue (h_store hs1)) (h_nodes hs1))"
proof -
  from pasteTimes_ok [OF assms, of us] obtain hs1 ps where
    t: "pasteTimes us hs = Some hs1" "separated hs1" "h_clipboard hs1 = h_clipboard hs"
       "sameOn (h_store hs) (h_store hs1) (liveRefs hs)" "h_nodes hs1 = h_nodes hs @ ps"
    by blast
  from pasteRefs_ok [OF t(2), of u] obtain hs2 cs vs where
    p: "pasteRefs u hs1 = Some hs2" "separated hs2" "h_clipboard hs2 = h_clipboard hs1"
       "sameOn (h_store hs1) (h_store hs2) (liveRefs hs1)" "h_nodes hs2 = h_nodes hs1 @ cs"
       "clipValue hs1 = map Some vs"
       "map (nodeValue (h_store hs2)) cs = map Some (cloneAll u vs)"
    by blast
  have cv1: "clipValue hs1 = clipValue hs" using t(4,3) by (rule sameOn_clipValue)
  have cv2: "clipValue hs2 = clipValue hs1" using p(4,3) by (rule sameOn_clipValue)
  have sub: "set (liveRefs hs) \<subseteq> set (liveRefs hs1)"
    using t(3,5) by (auto simp: liveRefs_def)
  have "sameOn (h_store hs1) (h_store hs2) (liveRefs hs)"
    using p(4) sub by (rule sameOn_subset)
  with t(4) have s02: "sameOn (h_store hs) (h_store hs2) (liveRefs hs)" by (rule sameOn_trans)
  have n02: "map (nodeValue (h_store hs2)) (h_nodes hs) = map (nodeValue (h_store hs)) (h_nodes hs)"
    using s02 by (rule sameOn_nodes)
  have n12: "map (nodeValue (h_store hs2)) (h_nodes hs1) = map (nodeValue (h_store hs1)) (h_nodes hs1)"
    using p(4) by (rule sameOn_nodes)
  have mut: "separated (mutateNode b m hs2)
            \<and> clipValue (mutateNode b m hs2) = clipValue hs
            \<and> map (nodeValue (h_store (mutateNode b m hs2))) (h_nodes hs1)
                = map (nodeValue (h_store hs1)) (h_nodes hs1)"
    if b: "b \<in> set cs" for b m
  proof -
    have b2: "b \<in> set (h_nodes hs2)" using b p(5) by simp
    from mutateNode_ok [OF p(2) b2, of m] have
      k: "separated (mutateNode b m hs2)"
         "sameOn (h_store hs2) (h_store (mutateNode b m hs2)) (removeAll b (liveRefs hs2))"
         "clipValue (mutateNode b m hs2) = clipValue hs2"
      by simp_all
    have "distinct (liveRefs hs2)" using p(2) by (simp add: separated_def noSharing_def)
    then have "b \<notin> set (h_nodes hs1)" using b p(5) by (auto simp: liveRefs_def)
    then have "set (h_nodes hs1) \<subseteq> set (removeAll b (liveRefs hs2))"
      using p(5) by (auto simp: liveRefs_def)
    with k(2) have "sameOn (h_store hs2) (h_store (mutateNode b m hs2)) (h_nodes hs1)"
      by (rule sameOn_subset)
    then have "map (nodeValue (h_store (mutateNode b m hs2))) (h_nodes hs1)
        = map (nodeValue (h_store hs2)) (h_nodes hs1)"
      by (rule sameOn_values)
    with k(1,3) cv2 cv1 n12 show ?thesis by simp
  qed
  have vs: "clipValue hs = map Some vs" using p(6) cv1 by simp
  have c2: "clipValue hs2 = clipValue hs" using cv2 cv1 by simp
  have k2: "h_clipboard hs2 = h_clipboard hs" using p(3) t(3) by simp
  have n01: "map (nodeValue (h_store hs1)) (h_nodes hs) = map (nodeValue (h_store hs)) (h_nodes hs)"
    using t(4) by (rule sameOn_nodes)
  from t(1) p(1) t(5) n01 t(2) p(2) t(3) k2 cv1 c2 vs p(5) p(7) n02 mut
  show ?thesis by blast
qed

lemma heapCopied_copy: "copyRefs heapA = Some heapCopied"
  by (simp add: copyRefs_def heapA_def heapCopied_def set_size_def set_has_def hasId_def
      readNode_def readData_def nodeValue_def deepCopyRef_def alloc_def objA_def nodeA_def
      Let_def fun_upd_twist)

lemma heapCopied_separated: "separated heapCopied"
  by (simp add: separated_def noSharing_def liveRefs_def clipRefs_def heapCopied_def
      validRef_def dataRef_def readNode_def readData_def objA_def)

lemma heapCopied_clipValue: "clipValue heapCopied = [Some nodeA]"
  by (simp add: clipValue_def clipRefs_def heapCopied_def nodeValue_def readNode_def
      readData_def objA_def nodeA_def)


lemma deepCopyRefs_ok:
  assumes "noSharing st L" and "set as \<subseteq> set L"
  shows "\<exists>cs st'. deepCopyRefs as st = Some (cs, st') \<and> sameOn st st' L
     \<and> noSharing st' (L @ cs) \<and> map (nodeValue st') cs = map (nodeValue st) as"
  using assms
proof (induction as arbitrary: st L)
  case Nil
  then show ?case by (simp add: sameOn_refl noSharing_def)
next
  case (Cons a as)
  have L: "list_all (validRef st) L" using Cons.prems(1) by (simp add: noSharing_def)
  have a: "validRef st a" using L Cons.prems(2) by (simp add: list_all_iff)
  from deepCopyRef_ok [OF L a] obtain c st1 where
    c: "deepCopyRef a st = Some (c, st1)" "sameOn st st1 L" "validRef st1 c"
       "nodeValue st1 c = nodeValue st a" "c \<notin> set L"
       "dataRef st1 c \<notin> set (map (dataRef st) L)"
    by blast
  have ns1: "noSharing st1 (L @ [c])"
    using Cons.prems(1) c(2,3,5,6) by (rule noSharing_snoc)
  have sub: "set as \<subseteq> set (L @ [c])" using Cons.prems(2) by auto
  from Cons.IH [OF ns1 sub] obtain cs st2 where
    r: "deepCopyRefs as st1 = Some (cs, st2)" "sameOn st1 st2 (L @ [c])"
       "noSharing st2 ((L @ [c]) @ cs)" "map (nodeValue st2) cs = map (nodeValue st1) as"
    by blast
  have s12: "sameOn st1 st2 L" "nodeValue st2 c = nodeValue st1 c"
    using r(2) by (simp_all add: sameOn_def)
  have same: "sameOn st st2 L" using c(2) s12(1) by (rule sameOn_trans)
  have "sameOn st st1 as" using c(2) Cons.prems(2) by (auto intro: sameOn_subset)
  then have tl: "map (nodeValue st1) as = map (nodeValue st) as" by (rule sameOn_values)
  have "deepCopyRefs (a # as) st = Some (c # cs, st2)" by (simp add: c(1) r(1))
  moreover have "noSharing st2 (L @ c # cs)" using r(3) by simp
  moreover have "map (nodeValue st2) (c # cs) = map (nodeValue st) (a # as)"
    using s12(2) c(4) r(4) tl by simp
  ultimately show ?case using same by blast
qed

lemma noSharing_drop_middle: "noSharing st (xs @ ys @ zs) \<Longrightarrow> noSharing st (xs @ zs)"
  by (auto simp: noSharing_def)

text \<open>Ctrl+Alt+C on a separated state: the state stays separated, the node list and what
  its nodes hold are unchanged, and the clipboard holds new objects with the values the
  copied nodes have at that moment.\<close>

lemma copyRefs_ok:
  assumes sep: "separated hs"
  shows "\<exists>hs'. copyRefs hs = Some hs' \<and> separated hs' \<and> h_nodes hs' = h_nodes hs
     \<and> map (nodeValue (h_store hs')) (h_nodes hs) = map (nodeValue (h_store hs)) (h_nodes hs)
     \<and> (h_clipboard hs' = h_clipboard hs \<and> h_store hs' = h_store hs
        \<or> (\<exists>as. set as \<subseteq> set (h_nodes hs)
              \<and> clipValue hs' = map (nodeValue (h_store hs)) as))"
proof -
  let ?st = "h_store hs"
  let ?L = "liveRefs hs"
  have ns: "noSharing ?st ?L" using sep by (simp add: separated_def)
  have copy: ?thesis
    if r: "sameOn ?st st' ?L" "noSharing st' (?L @ cs)"
          "map (nodeValue st') cs = map (nodeValue ?st) as" "clipRefs (Some c') = cs"
       and sub: "set as \<subseteq> set (h_nodes hs)"
       and c: "copyRefs hs = Some (hs\<lparr>h_store := st', h_clipboard := Some c'\<rparr>)"
    for st' cs as c'
  proof -
    let ?hs' = "hs\<lparr>h_store := st', h_clipboard := Some c'\<rparr>"
    have "noSharing st' (h_nodes hs @ clipRefs (h_clipboard hs) @ cs)"
      using r(2) by (simp add: liveRefs_def)
    then have "noSharing st' (h_nodes hs @ cs)" by (rule noSharing_drop_middle)
    then have 1: "separated ?hs'" using r(4) by (simp add: separated_def liveRefs_def)
    have 2: "map (nodeValue (h_store ?hs')) (h_nodes hs) = map (nodeValue ?st) (h_nodes hs)"
      using sameOn_nodes [OF r(1)] by simp
    have 3: "clipValue ?hs' = map (nodeValue ?st) as"
      using r(3,4) by (simp add: clipValue_def)
    have 4: "h_nodes ?hs' = h_nodes hs" by simp
    from sub 3 have 5: "\<exists>as. set as \<subseteq> set (h_nodes hs)
        \<and> clipValue ?hs' = map (nodeValue ?st) as" by blast
    from c 1 4 2 5 show ?thesis by blast
  qed
  show ?thesis
  proof (cases "set_size (h_selectedIds hs) \<ge> 1")
    case True
    let ?as = "filter (hasId ?st (\<lambda>i. set_has i (h_selectedIds hs))) (h_nodes hs)"
    have sub: "set ?as \<subseteq> set ?L" by (auto simp: liveRefs_def)
    from deepCopyRefs_ok [OF ns sub] obtain cs st' where
      r: "deepCopyRefs ?as ?st = Some (cs, st')" "sameOn ?st st' ?L"
         "noSharing st' (?L @ cs)" "map (nodeValue st') cs = map (nodeValue ?st) ?as"
      by blast
    have c: "copyRefs hs = Some (hs\<lparr>h_store := st', h_clipboard := Some (RMulti cs)\<rparr>)"
      using True r(1) by (simp add: copyRefs_def Let_def)
    have cr: "clipRefs (Some (RMulti cs)) = cs" by (simp add: clipRefs_def)
    have sb: "set ?as \<subseteq> set (h_nodes hs)" by auto
    from r(2,3,4) cr sb c show ?thesis by (rule copy)
  next
    case False
    show ?thesis
    proof (cases "truthy (h_focusedId hs)")
      case nf: False
      then have "copyRefs hs = Some hs" using False by (simp add: copyRefs_def)
      then show ?thesis using sep by simp
    next
      case tf: True
      show ?thesis
      proof (cases "find (hasId ?st (\<lambda>i. Some i = h_focusedId hs)) (h_nodes hs)")
        case None
        then have "copyRefs hs = Some hs" using False tf by (simp add: copyRefs_def)
        then show ?thesis using sep by simp
      next
        case (Some a)
        then have ain: "a \<in> set (h_nodes hs)"
          by (auto simp: find_Some_iff)
        then have sub: "set [a] \<subseteq> set ?L" by (simp add: liveRefs_def)
        from deepCopyRefs_ok [OF ns sub] obtain cs st' where
          r: "deepCopyRefs [a] ?st = Some (cs, st')" "sameOn ?st st' ?L"
             "noSharing st' (?L @ cs)" "map (nodeValue st') cs = map (nodeValue ?st) [a]"
          by blast
        from r(1) obtain c1 where c1: "deepCopyRef a ?st = Some (c1, st')" "cs = [c1]"
          by (auto split: option.splits)
        have c: "copyRefs hs = Some (hs\<lparr>h_store := st', h_clipboard := Some (RSingle c1)\<rparr>)"
          using False tf Some c1(1) by (simp add: copyRefs_def)
        have cr: "clipRefs (Some (RSingle c1)) = cs" using c1(2) by (simp add: clipRefs_def)
        have sb: "set [a] \<subseteq> set (h_nodes hs)" using ain by simp
        from r(2,3,4) cr sb c show ?thesis by (rule copy)
      qed
    qed
  qed
qed

theorem paste_never_mutates_clipboard_witness:
  "separated heapCopied \<and> copyRefs heapA = Some heapCopied
   \<and> clipValue heapCopied = [Some nodeA]
   \<and> (\<exists>hs1 hs2 c.
        pasteTimes [uuidU, uuidU] heapCopied = Some hs1 \<and> pasteRefs uuidU hs1 = Some hs2
        \<and> h_nodes hs2 = h_nodes hs1 @ [c]
        \<and> nodeValue (h_store hs2) c = Some (nodeA\<lparr>n_id := ''u'', n_x := 140, n_y := 140\<rparr>)
        \<and> clipValue hs2 = [Some nodeA]
        \<and> clipValue (mutateNode c (SetData ''os'' ''bsd'') hs2) = [Some nodeA]
        \<and> nodeValue (h_store (mutateNode c (SetX 0) hs2)) 1 = Some nodeA)"
proof -
  from paste_never_mutates_clipboard [OF heapCopied_separated, of "[uuidU, uuidU]" uuidU]
  obtain hs1 hs2 ps cs vs where
    r: "pasteTimes [uuidU, uuidU] heapCopied = Some hs1" "pasteRefs uuidU hs1 = Some hs2"
       "h_nodes hs1 = h_nodes heapCopied @ ps"
       "map (nodeValue (h_store hs1)) (h_nodes heapCopied)
          = map (nodeValue (h_store heapCopied)) (h_nodes heapCopied)"
       "clipValue hs2 = clipValue heapCopied" "clipValue heapCopied = map Some vs"
       "h_nodes hs2 = h_nodes hs1 @ cs"
       "map (nodeValue (h_store hs2)) cs = map Some (cloneAll uuidU vs)"
       "\<forall>b \<in> set cs. \<forall>m.
            separated (mutateNode b m hs2)
            \<and> clipValue (mutateNode b m hs2) = clipValue heapCopied
            \<and> map (nodeValue (h_store (mutateNode b m hs2))) (h_nodes hs1)
                = map (nodeValue (h_store hs1)) (h_nodes hs1)"
    by blast
  have vs: "vs = [nodeA]" using r(6) by (auto simp: heapCopied_clipValue Cons_eq_map_conv)
  have cl: "cloneAll uuidU [nodeA] = [nodeA\<lparr>n_id := ''u'', n_x := 140, n_y := 140\<rparr>]"
    by (simp add: cloneAll_def cloneNode_def deepCopy_def uuidU_def nodeA_def Let_def)
  from r(8) obtain c where c: "cs = [c]"
      "nodeValue (h_store hs2) c = Some (nodeA\<lparr>n_id := ''u'', n_x := 140, n_y := 140\<rparr>)"
    unfolding vs cl by (cases cs) auto
  have one: "h_nodes heapCopied = [1]" by (simp add: heapCopied_def)
  have v1: "nodeValue (h_store heapCopied) 1 = Some nodeA"
    by (simp add: heapCopied_def nodeValue_def readNode_def readData_def objA_def nodeA_def)
  have m: "clipValue (mutateNode c (SetData ''os'' ''bsd'') hs2) = [Some nodeA]"
      "map (nodeValue (h_store (mutateNode c (SetX 0) hs2))) (h_nodes hs1)
          = map (nodeValue (h_store hs1)) (h_nodes hs1)"
    using r(9) c(1) by (simp_all add: heapCopied_clipValue)
  have "nodeValue (h_store (mutateNode c (SetX 0) hs2)) 1 = nodeValue (h_store hs1) 1"
    using m(2) r(3) by (simp add: one)
  also have "\<dots> = Some nodeA" using r(4) v1 by (simp add: one)
  finally have orig: "nodeValue (h_store (mutateNode c (SetX 0) hs2)) 1 = Some nodeA" .
  have c2: "clipValue hs2 = [Some nodeA]" using r(5) by (simp add: heapCopied_clipValue)
  have n2: "h_nodes hs2 = h_nodes hs1 @ [c]" using r(7) c(1) by simp
  from heapCopied_separated heapCopied_copy heapCopied_clipValue r(1,2) n2 c(2) c2 m(1) orig
  show ?thesis by blast
qed


end
